theory Spec2Isabelle
  imports Complex_Main "HOL-Library.Word"
begin

section \<open>Memory, hardware and errors\<close>

text \<open>
  A \<open>std::vector<float>\<close> object is named by a reference; the memory maps every
  reference to the contents of that vector. The kernel receives \<open>x\<close> and \<open>y\<close> by
  reference, so the same object may be passed for both.

  Every element that a predicated load or store touches is recorded, in program order,
  in \<open>accesses\<close>, and so is every call of the kernel by the driver
  (\<open>Call_sve_saxpy\<close>, written at the call site). An access outside the vector is the
  error \<open>Out_of_bounds\<close>, and the overflow of a signed counter \<open>Signed_overflow\<close>:
  both are undefined behaviour in the source. \<open>Runtime_error\<close> is the exception that
  the kernel throws.
\<close>

type_synonym ref = nat

datatype access = Load ref nat | Store ref nat | Call_sve_saxpy

datatype error = Runtime_error string | Out_of_bounds | Signed_overflow

record 'f machine =
  vectors :: "ref \<Rightarrow> 'f list"
  accesses :: "access list"

text \<open>
  The processor: \<open>lanes\<close> is what \<open>svcntw()\<close> returns (the number of 32-bit lanes of
  a vector register, a \<open>uint64_t\<close>), \<open>fzero\<close> is the value \<open>0.0f\<close> of an inactive
  lane, and \<open>fmad a b c\<close> is the lane operation of the multiply-add instruction,
  \<open>a * b + c\<close> in single precision. The element type \<open>'f\<close> is left open.
\<close>

record 'f cpu =
  lanes :: "64 word"
  fzero :: 'f
  fmad :: "'f \<Rightarrow> 'f \<Rightarrow> 'f \<Rightarrow> 'f"

text \<open>The largest size of a \<open>std::vector<float>\<close> on a 64-bit target:
  \<open>PTRDIFF_MAX / sizeof(float)\<close>.\<close>

definition max_size :: nat where
  "max_size = (2 ^ 63 - 1) div 4"

text \<open>A pointer into the buffer of a vector: \<open>x.data() + i\<close> is \<open>Ptr x i\<close>.\<close>

datatype ptr = Ptr ref nat

definition data :: "ref \<Rightarrow> ptr" where
  "data r = Ptr r 0"

fun ptr_add :: "ptr \<Rightarrow> 64 word \<Rightarrow> ptr" where
  "ptr_add (Ptr r off) i = Ptr r (off + unat i)"

type_synonym 'f result = "(error \<times> 'f machine) + 'f machine"

section \<open>The SVE intrinsics\<close>

definition svcntw :: "'f cpu \<Rightarrow> 64 word" where
  "svcntw hw = lanes hw"

text \<open>
  \<open>svwhilelt_b32(op1, op2)\<close> on unsigned 64-bit operands: element by element, the
  lane is active while the incrementing first operand is lower than the second, and
  inactive from the first failure on. The increment wraps.
\<close>

fun whilelo :: "nat \<Rightarrow> 64 word \<Rightarrow> 64 word \<Rightarrow> bool \<Rightarrow> bool list" where
  "whilelo 0 op1 op2 lst = []"
| "whilelo (Suc e) op1 op2 lst =
     (let lst' = (lst \<and> op1 < op2) in lst' # whilelo e (op1 + 1) op2 lst')"

definition svwhilelt_b32 :: "'f cpu \<Rightarrow> 64 word \<Rightarrow> 64 word \<Rightarrow> bool list" where
  "svwhilelt_b32 hw op1 op2 = whilelo (unat (lanes hw)) op1 op2 True"

text \<open>The addresses of the active lanes, lane by lane from \<open>addr\<close>.\<close>

fun lane_addrs :: "bool list \<Rightarrow> nat \<Rightarrow> nat list" where
  "lane_addrs [] addr = []"
| "lane_addrs (p # pg) addr = (if p then [addr] else []) @ lane_addrs pg (Suc addr)"

fun ld1_lanes :: "'f \<Rightarrow> bool list \<Rightarrow> nat \<Rightarrow> 'f list \<Rightarrow> 'f list" where
  "ld1_lanes z [] addr v = []"
| "ld1_lanes z (p # pg) addr v = (if p then v ! addr else z) # ld1_lanes z pg (Suc addr) v"

fun st1_lanes :: "bool list \<Rightarrow> 'f list \<Rightarrow> nat \<Rightarrow> 'f list \<Rightarrow> 'f list" where
  "st1_lanes (p # pg) (d # ds) addr v = st1_lanes pg ds (Suc addr) (if p then v[addr := d] else v)"
| "st1_lanes pg ds addr v = v"

text \<open>\<open>svld1_f32(pg, base)\<close>: active lanes are read from memory, inactive lanes are zero.\<close>

fun svld1_f32 :: "'f cpu \<Rightarrow> bool list \<Rightarrow> ptr \<Rightarrow> 'f machine \<Rightarrow>
    (error \<times> 'f machine) + ('f list \<times> 'f machine)" where
  "svld1_f32 hw pg (Ptr r off) m =
     (if list_all (\<lambda>j. j < length (vectors m r)) (lane_addrs pg off)
      then Inr (ld1_lanes (fzero hw) pg off (vectors m r),
                m\<lparr>accesses := accesses m @ map (Load r) (lane_addrs pg off)\<rparr>)
      else Inl (Out_of_bounds, m))"

text \<open>\<open>svst1_f32(pg, base, data)\<close>: active lanes are written to memory.\<close>

fun svst1_f32 :: "bool list \<Rightarrow> ptr \<Rightarrow> 'f list \<Rightarrow> 'f machine \<Rightarrow> 'f result" where
  "svst1_f32 pg (Ptr r off) ds m =
     (if list_all (\<lambda>j. j < length (vectors m r)) (lane_addrs pg off)
      then Inr (m\<lparr>vectors := (vectors m)(r := st1_lanes pg ds off (vectors m r)),
                  accesses := accesses m @ map (Store r) (lane_addrs pg off)\<rparr>)
      else Inl (Out_of_bounds, m))"

definition svdup_n_f32 :: "'f cpu \<Rightarrow> 'f \<Rightarrow> 'f list" where
  "svdup_n_f32 hw a = replicate (unat (lanes hw)) a"

text \<open>\<open>svmad_f32_z(pg, op1, op2, op3)\<close>: \<open>op1 * op2 + op3\<close> in the active lanes, zero
  in the inactive ones.\<close>

definition svmad_f32_z :: "'f cpu \<Rightarrow> bool list \<Rightarrow> 'f list \<Rightarrow> 'f list \<Rightarrow> 'f list \<Rightarrow> 'f list" where
  "svmad_f32_z hw pg op1 op2 op3 =
     map (\<lambda>k. if pg ! k then fmad hw (op1 ! k) (op2 ! k) (op3 ! k) else fzero hw) [0..<length pg]"

section \<open>The kernel\<close>

text \<open>One pass through the body of the \<open>for\<close> loop of \<open>sve_saxpy\<close>, without the
  final \<open>i += svcntw()\<close>.\<close>

definition saxpy_body :: "'f cpu \<Rightarrow> 'f \<Rightarrow> ptr \<Rightarrow> ptr \<Rightarrow> 64 word \<Rightarrow> 64 word \<Rightarrow> 'f machine \<Rightarrow> 'f result" where
  "saxpy_body hw a x_ptr y_ptr n i m =
     (let pg = svwhilelt_b32 hw i n in
      case svld1_f32 hw pg (ptr_add x_ptr i) m of
        Inl e \<Rightarrow> Inl e
      | Inr (vec_x, m1) \<Rightarrow>
          (case svld1_f32 hw pg (ptr_add y_ptr i) m1 of
             Inl e \<Rightarrow> Inl e
           | Inr (vec_y, m2) \<Rightarrow>
               (let result = svmad_f32_z hw pg (svdup_n_f32 hw a) vec_x vec_y
                in svst1_f32 pg (ptr_add y_ptr i) result m2)))"

text \<open>The loop \<open>for (uint64_t i = 0; i < n; ) { ...; i += svcntw(); }\<close>. The cursor is a
  64-bit word and its increment wraps; \<open>None\<close> is a loop that never exits.\<close>

partial_function (option) saxpy_loop ::
    "'f cpu \<Rightarrow> 'f \<Rightarrow> ptr \<Rightarrow> ptr \<Rightarrow> 64 word \<Rightarrow> 64 word \<Rightarrow> 'f machine \<Rightarrow> 'f result option" where
  "saxpy_loop hw a x_ptr y_ptr n i m =
     (if i < n then
        (case saxpy_body hw a x_ptr y_ptr n i m of
           Inl e \<Rightarrow> Some (Inl e)
         | Inr m' \<Rightarrow> saxpy_loop hw a x_ptr y_ptr n (i + svcntw hw) m')
      else Some (Inr m))"

definition sve_saxpy :: "'f cpu \<Rightarrow> 'f \<Rightarrow> ref \<Rightarrow> ref \<Rightarrow> 'f machine \<Rightarrow> 'f result option" where
  "sve_saxpy hw a x y m =
     (if length (vectors m x) \<noteq> length (vectors m y)
      then Some (Inl (Runtime_error ''Vector sizes must be equal.'', m))
      else
        (let n = (of_nat (length (vectors m x)) :: 64 word);
             x_ptr = data x;
             y_ptr = data y
         in saxpy_loop hw a x_ptr y_ptr n 0 m))"

section \<open>Single precision as rationals with a rounding function\<close>

text \<open>
  The driver computes with concrete numbers. There a finite \<open>float\<close> is the rational
  it denotes, and every operation rounds its exact result with \<open>rnd\<close>, the rounding of
  the processor. \<open>binary32\<close> are the finite values of the format: a significand below
  \<open>2 ^ 24\<close> and an exponent from \<open>- 149\<close> to \<open>104\<close>.
\<close>

definition binary32 :: "rat \<Rightarrow> bool" where
  "binary32 q \<longleftrightarrow>
     (\<exists>e \<in> {- 149 .. 104 :: int}. \<exists>s \<in> {- (2 ^ 24) <..< 2 ^ 24 :: int}.
        q = of_int s * power_int 2 e)"

definition binary32_cpu :: "64 word \<Rightarrow> (rat \<Rightarrow> rat) \<Rightarrow> rat cpu" where
  "binary32_cpu W rnd = \<lparr>lanes = W, fzero = 0, fmad = (\<lambda>a b c. rnd (a * b + c))\<rparr>"

text \<open>The \<open>double\<close> arithmetic of the report: conversion from an integer,
  multiplication and division. The type \<open>'d\<close> of doubles is left open.\<close>

record 'd fpu =
  d_of_int :: "int \<Rightarrow> 'd"
  dmul :: "'d \<Rightarrow> 'd \<Rightarrow> 'd"
  ddiv :: "'d \<Rightarrow> 'd \<Rightarrow> 'd"

section \<open>The benchmark driver\<close>

text \<open>The three vectors of \<open>main\<close>: \<open>x\<close>, \<open>y\<close> and \<open>y_original\<close>.\<close>

definition X_ref :: ref where "X_ref = 0"

definition Y_ref :: ref where "Y_ref = 1"

definition Y_original_ref :: ref where "Y_original_ref = 2"

text \<open>\<open>std::iota(first, last, v)\<close> over \<open>k\<close> elements: store \<open>v\<close>, then \<open>++v\<close> in
  single precision.\<close>

fun iota :: "(rat \<Rightarrow> rat) \<Rightarrow> nat \<Rightarrow> rat \<Rightarrow> rat list" where
  "iota rnd 0 v = []"
| "iota rnd (Suc k) v = v # iota rnd k (rnd (v + 1))"

text \<open>\<open>for (size_t i = 0; i < VECTOR_SIZE; ++i) y[i] = static_cast<float>(VECTOR_SIZE - i);\<close>\<close>

function fill_y :: "(rat \<Rightarrow> rat) \<Rightarrow> nat \<Rightarrow> nat \<Rightarrow> rat list \<Rightarrow> rat list" where
  "fill_y rnd VECTOR_SIZE i y =
     (if i < VECTOR_SIZE
      then fill_y rnd VECTOR_SIZE (i + 1) (y[i := rnd (of_nat (VECTOR_SIZE - i))])
      else y)"
  by pat_completeness auto
termination
  by (relation "measure (\<lambda>(rnd, VECTOR_SIZE, i, y). VECTOR_SIZE - i)") auto

text \<open>Part 2 of \<open>main\<close>: the three vectors are allocated (zero-filled), \<open>x\<close> and \<open>y\<close>
  are filled, and \<open>y\<close> is copied to \<open>y_original\<close>.\<close>

definition initialize :: "(rat \<Rightarrow> rat) \<Rightarrow> nat \<Rightarrow> rat machine" where
  "initialize rnd VECTOR_SIZE =
     (let m0 = \<lparr>vectors = (\<lambda>r. []), accesses = []\<rparr>;
          m1 = m0\<lparr>vectors := (vectors m0)(X_ref := replicate VECTOR_SIZE 0)\<rparr>;
          m2 = m1\<lparr>vectors := (vectors m1)(Y_ref := replicate VECTOR_SIZE 0)\<rparr>;
          m3 = m2\<lparr>vectors := (vectors m2)(Y_original_ref := replicate VECTOR_SIZE 0)\<rparr>;
          m4 = m3\<lparr>vectors := (vectors m3)(X_ref := iota rnd (length (vectors m3 X_ref)) 0)\<rparr>;
          m5 = m4\<lparr>vectors := (vectors m4)(Y_ref := fill_y rnd VECTOR_SIZE 0 (vectors m4 Y_ref))\<rparr>
      in m5\<lparr>vectors := (vectors m5)(Y_original_ref := vectors m5 Y_ref)\<rparr>)"

text \<open>\<open>std::chrono::duration_cast\<close> from nanoseconds to a coarser unit of \<open>period\<close>
  nanoseconds: the count is divided by the period and the quotient is truncated towards
  zero.\<close>

definition trunc_div :: "int \<Rightarrow> int \<Rightarrow> int" where
  "trunc_div ns period = (if ns < 0 then - ((- ns) div period) else ns div period)"

definition duration_cast_seconds :: "int \<Rightarrow> int" where
  "duration_cast_seconds ns = trunc_div ns 1000000000"

definition duration_cast_microseconds :: "int \<Rightarrow> int" where
  "duration_cast_microseconds ns = trunc_div ns 1000"

definition LLONG_MAX :: int where
  "LLONG_MAX = 2 ^ 63 - 1"

text \<open>
  The clock is the environment of the driver: \<open>now k\<close> is what the \<open>k\<close>-th call of
  \<open>high_resolution_clock::now()\<close> returns, in nanoseconds; call \<open>0\<close> is \<open>start_time\<close>.

  One pass through the body of \<open>while (true)\<close>, up to the test of the elapsed time:
  \<open>y = y_original\<close>, the call of the kernel (marked in \<open>accesses\<close> by
  \<open>Call_sve_saxpy\<close>), \<open>iterations++\<close> on a \<open>long long\<close>, and the reading of the clock.
  An exception of the kernel is not caught.
\<close>

definition timed_loop_body :: "'f cpu \<Rightarrow> (nat \<Rightarrow> int) \<Rightarrow> 'f \<Rightarrow> int \<Rightarrow> nat \<Rightarrow> int \<Rightarrow> 'f machine \<Rightarrow>
    ((error \<times> 'f machine) + (int \<times> int \<times> 'f machine)) option" where
  "timed_loop_body hw now a start_time k iterations m =
     (let m1 = m\<lparr>vectors := (vectors m)(Y_ref := vectors m Y_original_ref)\<rparr>;
          m2 = m1\<lparr>accesses := accesses m1 @ [Call_sve_saxpy]\<rparr>
      in case sve_saxpy hw a X_ref Y_ref m2 of
           None \<Rightarrow> None
         | Some (Inl e) \<Rightarrow> Some (Inl e)
         | Some (Inr m3) \<Rightarrow>
             if iterations = LLONG_MAX then Some (Inl (Signed_overflow, m3))
             else
               (let iterations' = iterations + 1;
                    current_time = now k;
                    elapsed_seconds = duration_cast_seconds (current_time - start_time)
                in Some (Inr (iterations', elapsed_seconds, m3))))"

text \<open>The loop \<open>while (true) { ...; if (elapsed_seconds >= TARGET_DURATION_SECONDS) break; }\<close>.
  It returns the iteration count, the number of clock readings made so far and the
  memory; \<open>None\<close> is a loop that never exits.\<close>

partial_function (option) timed_loop ::
    "'f cpu \<Rightarrow> (nat \<Rightarrow> int) \<Rightarrow> 'f \<Rightarrow> int \<Rightarrow> int \<Rightarrow> nat \<Rightarrow> int \<Rightarrow> 'f machine \<Rightarrow>
     ((error \<times> 'f machine) + (int \<times> nat \<times> 'f machine)) option" where
  "timed_loop hw now a TARGET_DURATION_SECONDS start_time k iterations m =
     (case timed_loop_body hw now a start_time k iterations m of
        None \<Rightarrow> None
      | Some (Inl e) \<Rightarrow> Some (Inl e)
      | Some (Inr (iterations', elapsed_seconds, m')) \<Rightarrow>
          if elapsed_seconds \<ge> TARGET_DURATION_SECONDS then Some (Inr (iterations', Suc k, m'))
          else timed_loop hw now a TARGET_DURATION_SECONDS start_time (Suc k) iterations' m')"

text \<open>The final report: "Total iterations", "Total time" in seconds and "Performance"
  in GFLOPS.\<close>

record 'd report =
  total_iterations :: int
  total_time :: 'd
  gflops :: 'd

text \<open>Part 4 of \<open>main\<close>, the report: the iteration count, the total time
  \<open>total_duration / 1000000.0\<close> and
  \<open>(2.0 * VECTOR_SIZE * iterations) / (total_duration / 1000000.0) / 1e9\<close>.\<close>

definition final_report :: "'d fpu \<Rightarrow> nat \<Rightarrow> int \<Rightarrow> int \<Rightarrow> 'd report" where
  "final_report fp VECTOR_SIZE iterations total_duration =
     (let seconds = ddiv fp (d_of_int fp total_duration) (d_of_int fp 1000000);
          gflops = ddiv fp
            (ddiv fp
              (dmul fp (dmul fp (d_of_int fp 2) (d_of_int fp (int VECTOR_SIZE)))
                       (d_of_int fp iterations))
              (ddiv fp (d_of_int fp total_duration) (d_of_int fp 1000000)))
            (d_of_int fp 1000000000)
      in \<lparr>total_iterations = iterations, total_time = seconds, gflops = gflops\<rparr>)"

text \<open>The indices of the sample that \<open>main\<close> prints at its end, in \<open>size_t\<close>
  arithmetic: \<open>{0, 1, 42, VECTOR_SIZE / 2, VECTOR_SIZE - 1}\<close>. The three vectors are
  read there without a check of the index.\<close>

definition indices_to_check :: "nat \<Rightarrow> nat list" where
  "indices_to_check VECTOR_SIZE =
     [0, 1, 42, VECTOR_SIZE div 2, unat ((of_nat VECTOR_SIZE :: 64 word) - 1)]"

definition sample_in_range :: "'f machine \<Rightarrow> nat \<Rightarrow> bool" where
  "sample_in_range m VECTOR_SIZE =
     list_all (\<lambda>idx. idx < length (vectors m X_ref) \<and>
                     idx < length (vectors m Y_original_ref) \<and>
                     idx < length (vectors m Y_ref))
       (indices_to_check VECTOR_SIZE)"

text \<open>\<open>main\<close>, with its three constants as parameters. A sample index outside a
  vector is the error \<open>Out_of_bounds\<close>. What the progress lines and the sample print is
  not part of the model.\<close>

definition main_with :: "64 word \<Rightarrow> (rat \<Rightarrow> rat) \<Rightarrow> 'd fpu \<Rightarrow> (nat \<Rightarrow> int) \<Rightarrow> nat \<Rightarrow> rat \<Rightarrow> int \<Rightarrow>
    ((error \<times> rat machine) + ('d report \<times> rat machine)) option" where
  "main_with W rnd fp now VECTOR_SIZE a TARGET_DURATION_SECONDS =
     (let m = initialize rnd VECTOR_SIZE;
          start_time = now 0;
          iterations = 0
      in case timed_loop (binary32_cpu W rnd) now a TARGET_DURATION_SECONDS start_time 1
                iterations m of
           None \<Rightarrow> None
         | Some (Inl e) \<Rightarrow> Some (Inl e)
         | Some (Inr (iterations, k, m')) \<Rightarrow>
             (let end_time = now k;
                  total_duration = duration_cast_microseconds (end_time - start_time);
                  rep = final_report fp VECTOR_SIZE iterations total_duration
              in if sample_in_range m' VECTOR_SIZE then Some (Inr (rep, m'))
                 else Some (Inl (Out_of_bounds, m'))))"

text \<open>\<open>main\<close> as the source has it: ten million elements, \<open>a = 2.5f\<close>, 120 seconds.\<close>

definition main :: "64 word \<Rightarrow> (rat \<Rightarrow> rat) \<Rightarrow> 'd fpu \<Rightarrow> (nat \<Rightarrow> int) \<Rightarrow>
    ((error \<times> rat machine) + ('d report \<times> rat machine)) option" where
  "main W rnd fp now = main_with W rnd fp now 10000000 (5 / 2) 120"

section \<open>Observations\<close>

text \<open>The result of a call that has returned or thrown: the memory it leaves.\<close>

definition machine_of :: "'f result \<Rightarrow> 'f machine" where
  "machine_of res = (case res of Inl (e, m) \<Rightarrow> m | Inr m \<Rightarrow> m)"

text \<open>The contents of vector \<open>r\<close> after a call.\<close>

definition vector_after :: "'f result option \<Rightarrow> ref \<Rightarrow> 'f list option" where
  "vector_after out r = map_option (\<lambda>res. vectors (machine_of res) r) out"

text \<open>The memory that the timed loop leaves, whether it stopped or threw.\<close>

definition loop_machine_of :: "(error \<times> 'f machine) + (int \<times> nat \<times> 'f machine) \<Rightarrow> 'f machine" where
  "loop_machine_of res = (case res of Inl (e, m) \<Rightarrow> m | Inr (iterations, k, m) \<Rightarrow> m)"

text \<open>The throughput as the specification words it: \<open>2 * N * iterations\<close> floating-point
  operations, divided by the elapsed seconds, in GFLOPS (divided by \<open>10 ^ 9\<close>).\<close>

definition gflops_spec :: "'d fpu \<Rightarrow> int \<Rightarrow> int \<Rightarrow> 'd \<Rightarrow> 'd" where
  "gflops_spec fp N iterations elapsed_seconds =
     ddiv fp
       (ddiv fp (dmul fp (dmul fp (d_of_int fp 2) (d_of_int fp N)) (d_of_int fp iterations))
          elapsed_seconds)
       (d_of_int fp 1000000000)"

section \<open>Sample inputs\<close>

text \<open>The sample scenario of the specification: \<open>X = [0, 1, 2, 3, 4]\<close> in vector \<open>0\<close>,
  \<open>Y = [5, 4, 3, 2, 1]\<close> in vector \<open>1\<close>, and a vector \<open>2\<close> of another length.\<close>

definition sample :: "rat machine" where
  "sample = \<lparr>vectors = (\<lambda>r. if r = 0 then [0, 1, 2, 3, 4]
                              else if r = 1 then [5, 4, 3, 2, 1]
                              else if r = 2 then [7, 7] else []),
             accesses = []\<rparr>"

text \<open>Arithmetic without rounding error, and a clock that advances by 0.4 seconds
  from one reading to the next.\<close>

definition exact :: "rat fpu" where
  "exact = \<lparr>d_of_int = of_int, dmul = (*), ddiv = (/)\<rparr>"

definition sample_clock :: "nat \<Rightarrow> int" where
  "sample_clock k = 1000 + 400000000 * int k"

text \<open>The two loops are evaluated by their defining equations; the equation of
  \<open>fill_y\<close> is used only where it is named.\<close>

declare saxpy_loop.simps [code]

declare timed_loop.simps [code]

declare fill_y.simps [simp del]

section \<open>Lanes, predicates and memory\<close>

lemma whilelo_False: "whilelo e op1 op2 False = replicate e False"
  by (induction e arbitrary: op1) simp_all

lemma unat_Suc_less: "(op1 :: 64 word) < op2 \<Longrightarrow> unat (op1 + 1) = Suc (unat op1)"
proof -
  assume "op1 < op2"
  then have "unat op1 < unat op2" by (simp add: word_less_nat_alt)
  moreover have "unat op2 < 2 ^ 64" using unsigned_less [of op2] by simp
  ultimately have "unat op1 + unat (1 :: 64 word) < 2 ^ LENGTH(64)" by simp
  then have "unat (op1 + 1) = unat op1 + unat (1 :: 64 word)" by (simp only: unat_add_lem)
  then show ?thesis by simp
qed

lemma whilelo_nth:
  "k < e \<Longrightarrow> whilelo e op1 op2 True ! k = (unat op1 + k < unat op2)"
proof (induction e arbitrary: op1 k)
  case 0
  then show ?case by simp
next
  case (Suc e)
  show ?case
  proof (cases "op1 < op2")
    case True
    then have u: "unat (op1 + 1) = Suc (unat op1)" by (rule unat_Suc_less)
    from True have lt: "unat op1 < unat op2" by (simp add: word_less_nat_alt)
    show ?thesis
    proof (cases k)
      case 0
      then show ?thesis using True lt by simp
    next
      case (Suc k')
      then have "k' < e" using Suc.prems by simp
      then show ?thesis using Suc.IH [of k' "op1 + 1"] True u Suc by simp
    qed
  next
    case False
    then have "\<not> unat op1 < unat op2" by (simp add: word_less_nat_alt)
    then show ?thesis using False Suc.prems by (cases k) (simp_all add: whilelo_False)
  qed
qed

lemma length_whilelo: "length (whilelo e op1 op2 b) = e"
  by (induction e arbitrary: op1 b) (simp_all add: Let_def)

lemma length_ld1_lanes: "length (ld1_lanes z pg addr v) = length pg"
  by (induction pg arbitrary: addr) simp_all

lemma ld1_lanes_nth:
  "k < length pg \<Longrightarrow> ld1_lanes z pg addr v ! k = (if pg ! k then v ! (addr + k) else z)"
proof (induction pg arbitrary: addr k)
  case Nil
  then show ?case by simp
next
  case (Cons p pg)
  then show ?case by (cases k) simp_all
qed

lemma set_lane_addrs:
  "set (lane_addrs pg addr) = {addr + k | k. k < length pg \<and> pg ! k}"
proof (induction pg arbitrary: addr)
  case Nil
  then show ?case by simp
next
  case (Cons p pg)
  have "{addr + k | k. k < length (p # pg) \<and> (p # pg) ! k}
      = (if p then {addr} else {}) \<union> {Suc addr + k | k. k < length pg \<and> pg ! k}"
    (is "?L = ?R")
  proof (rule set_eqI)
    fix j
    show "j \<in> ?L \<longleftrightarrow> j \<in> ?R"
    proof
      assume "j \<in> ?L"
      then obtain k where k: "j = addr + k" "k < length (p # pg)" "(p # pg) ! k" by blast
      then show "j \<in> ?R" by (cases k) auto
    next
      assume "j \<in> ?R"
      then consider "p" "j = addr" | k where "j = Suc addr + k" "k < length pg" "pg ! k"
        by (auto split: if_splits)
      then show "j \<in> ?L"
      proof cases
        case 1
        then have "j = addr + 0 \<and> 0 < length (p # pg) \<and> (p # pg) ! 0" by simp
        then show ?thesis by blast
      next
        case 2
        then have "j = addr + Suc k \<and> Suc k < length (p # pg) \<and> (p # pg) ! Suc k" by simp
        then show ?thesis by blast
      qed
    qed
  qed
  then show ?case using Cons.IH [of "Suc addr"] by simp
qed

lemma length_st1_lanes: "length (st1_lanes pg ds addr v) = length v"
  by (induction pg ds addr v rule: st1_lanes.induct) simp_all

lemma st1_lanes_nth:
  "length ds = length pg \<Longrightarrow> j < length v \<Longrightarrow>
   st1_lanes pg ds addr v ! j =
     (if addr \<le> j \<and> j - addr < length pg \<and> pg ! (j - addr) then ds ! (j - addr) else v ! j)"
proof (induction pg ds addr v rule: st1_lanes.induct)
  case (1 p pg d ds addr v)
  let ?v' = "if p then v[addr := d] else v"
  have len: "j < length ?v'" using "1.prems" by simp
  have IH: "st1_lanes pg ds (Suc addr) ?v' ! j =
     (if Suc addr \<le> j \<and> j - Suc addr < length pg \<and> pg ! (j - Suc addr)
      then ds ! (j - Suc addr) else ?v' ! j)"
    using "1.IH" [OF _ len] "1.prems" by simp
  show ?case
  proof (cases "j = addr")
    case True
    then show ?thesis using IH "1.prems" by simp
  next
    case False
    show ?thesis
    proof (cases "addr < j")
      case True
      then obtain d' where d': "j - addr = Suc d'" "j - Suc addr = d'"
        by (metis Suc_diff_Suc diff_Suc_eq_diff_pred Suc_pred zero_less_diff diff_Suc_1)
      then show ?thesis using IH True False "1.prems" by simp
    next
      case False
      then show ?thesis using IH \<open>j \<noteq> addr\<close> "1.prems" by simp
    qed
  qed
qed simp_all

section \<open>One pass and the whole loop of the kernel\<close>

lemma svwhilelt_b32_nth:
  "k < unat (lanes hw) \<Longrightarrow> svwhilelt_b32 hw i n ! k = (unat i + k < unat n)"
  by (simp add: svwhilelt_b32_def whilelo_nth)

lemma length_svwhilelt_b32: "length (svwhilelt_b32 hw i n) = unat (lanes hw)"
  by (simp add: svwhilelt_b32_def length_whilelo)

lemma lane_addrs_svwhilelt_b32:
  "j \<in> set (lane_addrs (svwhilelt_b32 hw i n) (unat i)) \<Longrightarrow> unat i \<le> j \<and> j < unat n"
  by (auto simp: set_lane_addrs length_svwhilelt_b32 svwhilelt_b32_nth)

lemma saxpy_body_effect:
  assumes lx: "length (vectors m x) = unat n" and ly: "length (vectors m y) = unat n"
  shows "\<exists>m'. saxpy_body hw a (Ptr x 0) (Ptr y 0) n i m = Inr m' \<and>
     (\<forall>r. r \<noteq> y \<longrightarrow> vectors m' r = vectors m r) \<and>
     length (vectors m' y) = unat n \<and>
     (\<forall>j < unat n. vectors m' y ! j =
        (if unat i \<le> j \<and> j < unat i + unat (lanes hw)
         then fmad hw a (vectors m x ! j) (vectors m y ! j) else vectors m y ! j)) \<and>
     (\<exists>evs. accesses m' = accesses m @ evs \<and>
        (\<forall>ev \<in> set evs. \<exists>j. unat i \<le> j \<and> j < unat n \<and>
           (ev = Load x j \<or> ev = Load y j \<or> ev = Store y j)))"
proof -
  define pg where "pg = svwhilelt_b32 hw i n"
  define addrs where "addrs = lane_addrs pg (unat i)"
  define vec_x where "vec_x = ld1_lanes (fzero hw) pg (unat i) (vectors m x)"
  define vec_y where "vec_y = ld1_lanes (fzero hw) pg (unat i) (vectors m y)"
  define res where "res = svmad_f32_z hw pg (svdup_n_f32 hw a) vec_x vec_y"
  define evs where "evs = map (Load x) addrs @ map (Load y) addrs @ map (Store y) addrs"
  define m' where "m' = m\<lparr>vectors := (vectors m)(y := st1_lanes pg res (unat i) (vectors m y)),
                          accesses := accesses m @ evs\<rparr>"
  have lpg: "length pg = unat (lanes hw)" by (simp add: pg_def length_svwhilelt_b32)
  have addrs: "\<And>j. j \<in> set addrs \<Longrightarrow> unat i \<le> j \<and> j < unat n"
    unfolding addrs_def pg_def by (rule lane_addrs_svwhilelt_b32)
  have guard_x: "list_all (\<lambda>j. j < length (vectors m x)) addrs"
    using addrs by (simp add: list_all_iff lx)
  have guard_y: "list_all (\<lambda>j. j < length (vectors m y)) addrs"
    using addrs by (simp add: list_all_iff ly)
  have run: "saxpy_body hw a (Ptr x 0) (Ptr y 0) n i m = Inr m'"
    using guard_x guard_y
    by (simp add: saxpy_body_def Let_def pg_def [symmetric] addrs_def [symmetric]
        vec_x_def [symmetric] vec_y_def [symmetric] res_def [symmetric] m'_def evs_def)
  have lres: "length res = length pg" by (simp add: res_def svmad_f32_z_def)
  have res_nth: "res ! k = fmad hw a (vectors m x ! (unat i + k)) (vectors m y ! (unat i + k))"
    if "k < unat (lanes hw)" "unat i + k < unat n" for k
    using that
    by (simp add: res_def svmad_f32_z_def lpg pg_def svwhilelt_b32_nth svdup_n_f32_def
        vec_x_def vec_y_def ld1_lanes_nth length_svwhilelt_b32)
  have frame: "\<forall>r. r \<noteq> y \<longrightarrow> vectors m' r = vectors m r" by (simp add: m'_def)
  have len: "length (vectors m' y) = unat n" by (simp add: m'_def length_st1_lanes ly)
  have vals: "vectors m' y ! j =
        (if unat i \<le> j \<and> j < unat i + unat (lanes hw)
         then fmad hw a (vectors m x ! j) (vectors m y ! j) else vectors m y ! j)"
    if j: "j < unat n" for j
  proof (cases "unat i \<le> j \<and> j < unat i + unat (lanes hw)")
    case True
    then have k: "j - unat i < unat (lanes hw)" "unat i + (j - unat i) < unat n"
      using j by arith+
    have "pg ! (j - unat i)" using k by (simp add: pg_def svwhilelt_b32_nth)
    then have "vectors m' y ! j = res ! (j - unat i)"
      using True j k by (simp add: m'_def st1_lanes_nth lres ly lpg)
    also have "\<dots> = fmad hw a (vectors m x ! j) (vectors m y ! j)"
      using res_nth [OF k] True by simp
    finally show ?thesis using True by simp
  next
    case False
    then have "\<not> (unat i \<le> j \<and> j - unat i < length pg)" by (auto simp: lpg)
    moreover have "vectors m' y ! j =
        (if unat i \<le> j \<and> j - unat i < length pg \<and> pg ! (j - unat i)
         then res ! (j - unat i) else vectors m y ! j)"
      using j by (simp add: m'_def st1_lanes_nth lres ly)
    ultimately have "vectors m' y ! j = vectors m y ! j" by auto
    then show ?thesis using False by auto
  qed
  have acc: "accesses m' = accesses m @ evs" by (simp add: m'_def)
  have evs: "\<forall>ev \<in> set evs. \<exists>j. unat i \<le> j \<and> j < unat n \<and>
           (ev = Load x j \<or> ev = Load y j \<or> ev = Store y j)"
    using addrs by (auto simp: evs_def)
  show ?thesis using run frame len vals acc evs by blast
qed

lemma cursor_advance:
  assumes W: "lanes hw \<noteq> 0" and lt: "i < n" and n: "unat n \<le> max_size"
    and inv: "i = 0 \<or> lanes hw \<le> i"
  shows "unat (i + svcntw hw) = unat i + unat (lanes hw)"
proof -
  have i: "unat i < unat n" using lt by (simp add: word_less_nat_alt)
  have "unat i + unat (lanes hw) < 2 ^ LENGTH(64)"
  proof (cases "i = 0")
    case True
    then show ?thesis using unsigned_less [of "lanes hw"] by simp
  next
    case False
    then have "unat (lanes hw) \<le> unat i" using inv by (simp add: word_le_nat_alt)
    then have "unat i + unat (lanes hw) \<le> 2 * max_size" using i n by simp
    then show ?thesis by (simp add: max_size_def)
  qed
  then show ?thesis by (simp only: svcntw_def unat_add_lem)
qed

lemma saxpy_loop_effect:
  assumes W: "lanes hw \<noteq> 0"
    and lx: "length (vectors m x) = unat n" and ly: "length (vectors m y) = unat n"
    and n: "unat n \<le> max_size" and inv: "i = 0 \<or> lanes hw \<le> i"
  shows "\<exists>m'. saxpy_loop hw a (Ptr x 0) (Ptr y 0) n i m = Some (Inr m') \<and>
     (\<forall>r. r \<noteq> y \<longrightarrow> vectors m' r = vectors m r) \<and>
     length (vectors m' y) = unat n \<and>
     (\<forall>j < unat n. vectors m' y ! j =
        (if unat i \<le> j then fmad hw a (vectors m x ! j) (vectors m y ! j)
         else vectors m y ! j)) \<and>
     (\<exists>evs. accesses m' = accesses m @ evs \<and>
        (\<forall>ev \<in> set evs. \<exists>j. unat i \<le> j \<and> j < unat n \<and>
           (ev = Load x j \<or> ev = Load y j \<or> ev = Store y j)))"
  using lx ly inv
proof (induction "unat n - unat i" arbitrary: i m rule: less_induct)
  case less
  show ?case
  proof (cases "i < n")
    case False
    then have "unat n \<le> unat i" by (simp add: word_less_nat_alt)
    moreover have "saxpy_loop hw a (Ptr x 0) (Ptr y 0) n i m = Some (Inr m)"
      using False by (subst saxpy_loop.simps) simp
    ultimately show ?thesis using less.prems(2) by auto
  next
    case True
    then have i: "unat i < unat n" by (simp add: word_less_nat_alt)
    obtain m1 where body: "saxpy_body hw a (Ptr x 0) (Ptr y 0) n i m = Inr m1"
      and frame1: "\<forall>r. r \<noteq> y \<longrightarrow> vectors m1 r = vectors m r"
      and len1: "length (vectors m1 y) = unat n"
      and vals1: "\<forall>j < unat n. vectors m1 y ! j =
        (if unat i \<le> j \<and> j < unat i + unat (lanes hw)
         then fmad hw a (vectors m x ! j) (vectors m y ! j) else vectors m y ! j)"
      and acc1: "\<exists>evs. accesses m1 = accesses m @ evs \<and>
        (\<forall>ev \<in> set evs. \<exists>j. unat i \<le> j \<and> j < unat n \<and>
           (ev = Load x j \<or> ev = Load y j \<or> ev = Store y j))"
      using saxpy_body_effect [OF less.prems(1) less.prems(2), of hw a i] by blast
    let ?i' = "i + svcntw hw"
    have adv: "unat ?i' = unat i + unat (lanes hw)"
      using cursor_advance [OF W True n less.prems(3)] .
    have Wpos: "0 < unat (lanes hw)" using W by (simp add: unat_gt_0)
    have dec: "unat n - unat ?i' < unat n - unat i" using adv Wpos i by simp
    have lx1: "length (vectors m1 x) = unat n"
      using frame1 len1 less.prems(1) by (cases "x = y") simp_all
    have inv': "?i' = 0 \<or> lanes hw \<le> ?i'" using adv by (simp add: word_le_nat_alt)
    obtain m' where rest: "saxpy_loop hw a (Ptr x 0) (Ptr y 0) n ?i' m1 = Some (Inr m')"
      and frame2: "\<forall>r. r \<noteq> y \<longrightarrow> vectors m' r = vectors m1 r"
      and len2: "length (vectors m' y) = unat n"
      and vals2: "\<forall>j < unat n. vectors m' y ! j =
        (if unat ?i' \<le> j then fmad hw a (vectors m1 x ! j) (vectors m1 y ! j)
         else vectors m1 y ! j)"
      and acc2: "\<exists>evs. accesses m' = accesses m1 @ evs \<and>
        (\<forall>ev \<in> set evs. \<exists>j. unat ?i' \<le> j \<and> j < unat n \<and>
           (ev = Load x j \<or> ev = Load y j \<or> ev = Store y j))"
      using less.hyps [OF dec lx1 len1 inv'] by blast
    have run: "saxpy_loop hw a (Ptr x 0) (Ptr y 0) n i m = Some (Inr m')"
      using True body rest by (subst saxpy_loop.simps) simp
    have frame: "\<forall>r. r \<noteq> y \<longrightarrow> vectors m' r = vectors m r"
      using frame1 frame2 by simp
    have x1: "vectors m1 x ! j = vectors m x ! j" if "unat ?i' \<le> j" "j < unat n" for j
    proof (cases "x = y")
      case True
      then show ?thesis using vals1 that adv by simp
    next
      case False
      then show ?thesis using frame1 by simp
    qed
    have vals: "vectors m' y ! j =
        (if unat i \<le> j then fmad hw a (vectors m x ! j) (vectors m y ! j)
         else vectors m y ! j)" if j: "j < unat n" for j
    proof (cases "unat ?i' \<le> j")
      case True
      then have "vectors m' y ! j = fmad hw a (vectors m1 x ! j) (vectors m1 y ! j)"
        using vals2 j by simp
      moreover have "vectors m1 y ! j = vectors m y ! j" using vals1 j True adv by simp
      moreover have "unat i \<le> j" using True adv by simp
      ultimately show ?thesis using x1 [OF True j] by simp
    next
      case False
      then have "vectors m' y ! j = vectors m1 y ! j" using vals2 j by simp
      then show ?thesis using vals1 j False adv by auto
    qed
    obtain evs1 evs2 where e1: "accesses m1 = accesses m @ evs1"
      "\<forall>ev \<in> set evs1. \<exists>j. unat i \<le> j \<and> j < unat n \<and>
           (ev = Load x j \<or> ev = Load y j \<or> ev = Store y j)"
      and e2: "accesses m' = accesses m1 @ evs2"
      "\<forall>ev \<in> set evs2. \<exists>j. unat ?i' \<le> j \<and> j < unat n \<and>
           (ev = Load x j \<or> ev = Load y j \<or> ev = Store y j)"
      using acc1 acc2 by blast
    have "\<forall>ev \<in> set evs2. \<exists>j. unat i \<le> j \<and> j < unat n \<and>
           (ev = Load x j \<or> ev = Load y j \<or> ev = Store y j)"
    proof
      fix ev assume "ev \<in> set evs2"
      then obtain j where "unat ?i' \<le> j" "j < unat n"
          "ev = Load x j \<or> ev = Load y j \<or> ev = Store y j"
        using e2(2) by blast
      moreover then have "unat i \<le> j" using adv by simp
      ultimately show "\<exists>j. unat i \<le> j \<and> j < unat n \<and>
           (ev = Load x j \<or> ev = Load y j \<or> ev = Store y j)" by blast
    qed
    then have "accesses m' = accesses m @ (evs1 @ evs2) \<and>
        (\<forall>ev \<in> set (evs1 @ evs2). \<exists>j. unat i \<le> j \<and> j < unat n \<and>
           (ev = Load x j \<or> ev = Load y j \<or> ev = Store y j))"
      using e1 e2(1) by auto
    then have acc: "\<exists>evs. accesses m' = accesses m @ evs \<and>
        (\<forall>ev \<in> set evs. \<exists>j. unat i \<le> j \<and> j < unat n \<and>
           (ev = Load x j \<or> ev = Load y j \<or> ev = Store y j))" by blast
    show ?thesis using run frame len2 vals acc by blast
  qed
qed

lemma unat_of_nat_size:
  "n \<le> max_size \<Longrightarrow> unat (of_nat n :: 64 word) = n"
  by (simp add: unat_of_nat max_size_def)

lemma sve_saxpy_effect:
  assumes W: "lanes hw \<noteq> 0"
    and eq: "length (vectors m x) = length (vectors m y)"
    and sz: "length (vectors m y) \<le> max_size"
  shows "\<exists>m'. sve_saxpy hw a x y m = Some (Inr m') \<and>
     (\<forall>r. r \<noteq> y \<longrightarrow> vectors m' r = vectors m r) \<and>
     length (vectors m' y) = length (vectors m y) \<and>
     (\<forall>j < length (vectors m y).
        vectors m' y ! j = fmad hw a (vectors m x ! j) (vectors m y ! j)) \<and>
     (\<exists>evs. accesses m' = accesses m @ evs \<and>
        (\<forall>ev \<in> set evs. \<exists>j < length (vectors m y).
           ev = Load x j \<or> ev = Load y j \<or> ev = Store y j))"
proof -
  define n :: "64 word" where "n = of_nat (length (vectors m x))"
  have un: "unat n = length (vectors m y)" using sz eq by (simp add: n_def unat_of_nat_size)
  have run: "sve_saxpy hw a x y m = saxpy_loop hw a (Ptr x 0) (Ptr y 0) n 0 m"
    using eq by (simp add: sve_saxpy_def data_def n_def)
  have "\<exists>m'. saxpy_loop hw a (Ptr x 0) (Ptr y 0) n 0 m = Some (Inr m') \<and>
     (\<forall>r. r \<noteq> y \<longrightarrow> vectors m' r = vectors m r) \<and>
     length (vectors m' y) = unat n \<and>
     (\<forall>j < unat n. vectors m' y ! j =
        (if unat (0 :: 64 word) \<le> j then fmad hw a (vectors m x ! j) (vectors m y ! j)
         else vectors m y ! j)) \<and>
     (\<exists>evs. accesses m' = accesses m @ evs \<and>
        (\<forall>ev \<in> set evs. \<exists>j. unat (0 :: 64 word) \<le> j \<and> j < unat n \<and>
           (ev = Load x j \<or> ev = Load y j \<or> ev = Store y j)))"
    by (rule saxpy_loop_effect [OF W]) (simp_all add: un eq sz)
  then obtain m' evs where m': "saxpy_loop hw a (Ptr x 0) (Ptr y 0) n 0 m = Some (Inr m')"
    "\<forall>r. r \<noteq> y \<longrightarrow> vectors m' r = vectors m r"
    "length (vectors m' y) = unat n"
    "\<forall>j < unat n. vectors m' y ! j = fmad hw a (vectors m x ! j) (vectors m y ! j)"
    "accesses m' = accesses m @ evs"
    "\<forall>ev \<in> set evs. \<exists>j. j < unat n \<and> (ev = Load x j \<or> ev = Load y j \<or> ev = Store y j)"
    by auto
  have "\<forall>ev \<in> set evs. \<exists>j < length (vectors m y).
           ev = Load x j \<or> ev = Load y j \<or> ev = Store y j"
    using m'(6) un by auto
  then show ?thesis using run m'(1-5) un by auto
qed

section \<open>Representable numbers\<close>

lemma binary32_int:
  assumes "\<bar>s\<bar> < 2 ^ 24"
  shows "binary32 (of_int s)"
proof -
  have "(0 :: int) \<in> {- 149 .. 104}" by simp
  moreover have "s \<in> {- (2 ^ 24) <..< 2 ^ 24}" using assms by auto
  moreover have "(of_int s :: rat) = of_int s * power_int 2 0" by simp
  ultimately show ?thesis unfolding binary32_def by blast
qed

lemma binary32_half:
  assumes "\<bar>s\<bar> < 2 ^ 24"
  shows "binary32 (of_int s / 2)"
proof -
  have "(- 1 :: int) \<in> {- 149 .. 104}" by simp
  moreover have "s \<in> {- (2 ^ 24) <..< 2 ^ 24}" using assms by auto
  moreover have "(of_int s / 2 :: rat) = of_int s * power_int 2 (- 1)"
    by (simp add: power_int_minus)
  ultimately show ?thesis unfolding binary32_def by blast
qed

lemma binary32_nat:
  assumes "k \<le> 2 ^ 24"
  shows "binary32 (of_nat k)"
proof (cases "k < 2 ^ 24")
  case True
  then have "\<bar>int k\<bar> < 2 ^ 24" by simp
  then have "binary32 (of_int (int k))" by (rule binary32_int)
  then show ?thesis by simp
next
  case False
  then have k: "k = 2 ^ 24" using assms by simp
  have "(1 :: int) \<in> {- 149 .. 104}" by simp
  moreover have "(2 ^ 23 :: int) \<in> {- (2 ^ 24) <..< 2 ^ 24}" by simp
  moreover have "(of_nat k :: rat) = of_int (2 ^ 23) * power_int 2 1" by (simp add: k)
  ultimately show ?thesis unfolding binary32_def by blast
qed

lemma less_5_cases: "(i :: nat) < 5 \<Longrightarrow> i = 0 \<or> i = 1 \<or> i = 2 \<or> i = 3 \<or> i = 4"
  by arith

section \<open>The timed loop\<close>

lemma sve_saxpy_result:
  assumes W: "lanes hw \<noteq> 0"
    and eq: "length (vectors m x) = length (vectors m y)"
    and sz: "length (vectors m y) \<le> max_size"
  shows "\<exists>m'. sve_saxpy hw a x y m = Some (Inr m') \<and>
     vectors m' y = map2 (fmad hw a) (vectors m x) (vectors m y)"
proof -
  obtain m' where run: "sve_saxpy hw a x y m = Some (Inr m')"
    and len: "length (vectors m' y) = length (vectors m y)"
    and vals: "\<forall>j < length (vectors m y).
        vectors m' y ! j = fmad hw a (vectors m x ! j) (vectors m y ! j)"
    using sve_saxpy_effect [OF W eq sz, of a] by blast
  have "vectors m' y = map2 (fmad hw a) (vectors m x) (vectors m y)"
    using len vals eq by (simp add: list_eq_iff_nth_eq)
  then show ?thesis using run by blast
qed

lemma refs_distinct: "X_ref \<noteq> Y_ref" "Y_original_ref \<noteq> Y_ref" "X_ref \<noteq> Y_original_ref"
  by (simp_all add: X_ref_def Y_ref_def Y_original_ref_def)

lemma count_list_no_call:
  assumes "\<forall>ev \<in> set evs. \<exists>j < n. ev = Load x j \<or> ev = Load y j \<or> ev = Store y j"
  shows "count_list evs Call_sve_saxpy = 0"
proof -
  have "Call_sve_saxpy \<notin> set evs" using assms by auto
  then show ?thesis by (simp add: count_list_0_iff)
qed

lemma timed_loop_body_effect:
  assumes W: "lanes hw \<noteq> 0"
    and eq: "length (vectors m X_ref) = length (vectors m Y_original_ref)"
    and sz: "length (vectors m Y_original_ref) \<le> max_size"
  shows "\<exists>m3. timed_loop_body hw now a start_time k iterations m =
       Some (if iterations = LLONG_MAX then Inl (Signed_overflow, m3)
             else Inr (iterations + 1, duration_cast_seconds (now k - start_time), m3)) \<and>
     (\<forall>r. r \<noteq> Y_ref \<longrightarrow> vectors m3 r = vectors m r) \<and>
     vectors m3 Y_ref = map2 (fmad hw a) (vectors m X_ref) (vectors m Y_original_ref) \<and>
     count_list (accesses m3) Call_sve_saxpy = Suc (count_list (accesses m) Call_sve_saxpy)"
proof -
  define m2 where "m2 = m\<lparr>vectors := (vectors m)(Y_ref := vectors m Y_original_ref),
                          accesses := accesses m @ [Call_sve_saxpy]\<rparr>"
  have vx: "vectors m2 X_ref = vectors m X_ref" using refs_distinct by (simp add: m2_def)
  have vy: "vectors m2 Y_ref = vectors m Y_original_ref" by (simp add: m2_def)
  have eq2: "length (vectors m2 X_ref) = length (vectors m2 Y_ref)" using eq vx vy by simp
  have sz2: "length (vectors m2 Y_ref) \<le> max_size" using sz vy by simp
  obtain m3 evs where run: "sve_saxpy hw a X_ref Y_ref m2 = Some (Inr m3)"
    and frame: "\<forall>r. r \<noteq> Y_ref \<longrightarrow> vectors m3 r = vectors m2 r"
    and acc: "accesses m3 = accesses m2 @ evs"
    and evs: "\<forall>ev \<in> set evs. \<exists>j < length (vectors m2 Y_ref).
           ev = Load X_ref j \<or> ev = Load Y_ref j \<or> ev = Store Y_ref j"
    using sve_saxpy_effect [OF W eq2 sz2, of a] by blast
  have res: "vectors m3 Y_ref = map2 (fmad hw a) (vectors m2 X_ref) (vectors m2 Y_ref)"
    using sve_saxpy_result [OF W eq2 sz2, of a] run by simp
  have body: "timed_loop_body hw now a start_time k iterations m =
       Some (if iterations = LLONG_MAX then Inl (Signed_overflow, m3)
             else Inr (iterations + 1, duration_cast_seconds (now k - start_time), m3))"
    using run by (simp add: timed_loop_body_def Let_def m2_def)
  have fr: "\<forall>r. r \<noteq> Y_ref \<longrightarrow> vectors m3 r = vectors m r"
    using frame by (simp add: m2_def)
  have cnt: "count_list (accesses m3) Call_sve_saxpy = Suc (count_list (accesses m) Call_sve_saxpy)"
    using acc count_list_no_call [OF evs] by (simp add: m2_def)
  show ?thesis using body fr res vx vy cnt by auto
qed

lemma timed_loop_partial:
  assumes ret: "timed_loop hw now a T start_time k iterations m = Some res"
    and W: "lanes hw \<noteq> 0"
    and eq: "length (vectors m X_ref) = length (vectors m Y_original_ref)"
    and sz: "length (vectors m Y_original_ref) \<le> max_size"
  shows "vectors (loop_machine_of res) X_ref = vectors m X_ref \<and>
     vectors (loop_machine_of res) Y_original_ref = vectors m Y_original_ref \<and>
     (\<forall>iterations' k' m'. res = Inr (iterations', k', m') \<longrightarrow>
        k < k' \<and> iterations' = iterations + int (k' - k) \<and>
        count_list (accesses m') Call_sve_saxpy =
          count_list (accesses m) Call_sve_saxpy + (k' - k) \<and>
        vectors m' Y_ref = map2 (fmad hw a) (vectors m X_ref) (vectors m Y_original_ref))"
  using ret W eq sz
proof (induction hw now a T start_time k iterations m res
    rule: timed_loop.raw_induct [rotated 1, consumes 1])
  case (1 loop hw now a T start_time k iterations m res)
  note W = "1.prems"(1) and eq = "1.prems"(2) and sz = "1.prems"(3)
  note unfolded = "1.hyps"
  obtain m3 where body: "timed_loop_body hw now a start_time k iterations m =
       Some (if iterations = LLONG_MAX then Inl (Signed_overflow, m3)
             else Inr (iterations + 1, duration_cast_seconds (now k - start_time), m3))"
    and frame: "\<forall>r. r \<noteq> Y_ref \<longrightarrow> vectors m3 r = vectors m r"
    and y3: "vectors m3 Y_ref = map2 (fmad hw a) (vectors m X_ref) (vectors m Y_original_ref)"
    and cnt: "count_list (accesses m3) Call_sve_saxpy = Suc (count_list (accesses m) Call_sve_saxpy)"
    using timed_loop_body_effect [OF W eq sz, of now a start_time k iterations] by blast
  have x3: "vectors m3 X_ref = vectors m X_ref"
    and o3: "vectors m3 Y_original_ref = vectors m Y_original_ref"
    using frame refs_distinct by simp_all
  show ?case
  proof (cases "iterations = LLONG_MAX")
    case True
    then have "res = Inl (Signed_overflow, m3)" using unfolded body by simp
    then show ?thesis using x3 o3 by (simp add: loop_machine_of_def)
  next
    case False
    note nomax = this
    show ?thesis
    proof (cases "T \<le> duration_cast_seconds (now k - start_time)")
      case True
      then have "res = Inr (iterations + 1, Suc k, m3)"
        using unfolded body nomax by simp
      then show ?thesis using x3 o3 y3 cnt by (simp add: loop_machine_of_def)
    next
      case False
      then have rec: "loop hw now a T start_time (Suc k) (iterations + 1) m3 = Some res"
        using unfolded body nomax by simp
      have eq3: "length (vectors m3 X_ref) = length (vectors m3 Y_original_ref)"
        using x3 o3 eq by simp
      have sz3: "length (vectors m3 Y_original_ref) \<le> max_size"
        using o3 sz by simp
      have IH: "vectors (loop_machine_of res) X_ref = vectors m3 X_ref \<and>
         vectors (loop_machine_of res) Y_original_ref = vectors m3 Y_original_ref \<and>
         (\<forall>iterations' k' m'. res = Inr (iterations', k', m') \<longrightarrow>
            Suc k < k' \<and> iterations' = iterations + 1 + int (k' - Suc k) \<and>
            count_list (accesses m') Call_sve_saxpy =
              count_list (accesses m3) Call_sve_saxpy + (k' - Suc k) \<and>
            vectors m' Y_ref = map2 (fmad hw a) (vectors m3 X_ref) (vectors m3 Y_original_ref))"
        using "1.IH" [OF rec W eq3 sz3] .
      show ?thesis using IH x3 o3 cnt by auto
    qed
  qed
qed

lemma duration_cast_seconds_nonneg: "0 \<le> d \<Longrightarrow> 0 \<le> duration_cast_seconds d"
  by (simp add: duration_cast_seconds_def trunc_div_def sgn_if pos_imp_zdiv_nonneg_iff)

lemma timed_loop_total:
  assumes W: "lanes hw \<noteq> 0"
    and eq: "length (vectors m X_ref) = length (vectors m Y_original_ref)"
    and sz: "length (vectors m Y_original_ref) \<le> max_size"
    and reach: "T \<le> duration_cast_seconds (now j - start_time)"
    and kj: "k \<le> j" and room: "iterations + int (j - k) < LLONG_MAX"
  shows "\<exists>iterations' k' m'.
     timed_loop hw now a T start_time k iterations m = Some (Inr (iterations', k', m'))"
  using eq sz kj room
proof (induction "j - k" arbitrary: k iterations m)
  case 0
  then have k: "k = j" by simp
  have nomax: "iterations \<noteq> LLONG_MAX" using "0.prems"(4) by simp
  obtain m3 where body: "timed_loop_body hw now a start_time k iterations m =
       Some (if iterations = LLONG_MAX then Inl (Signed_overflow, m3)
             else Inr (iterations + 1, duration_cast_seconds (now k - start_time), m3))"
    using timed_loop_body_effect [OF W "0.prems"(1,2), of now a start_time k iterations] by blast
  have "timed_loop hw now a T start_time k iterations m = Some (Inr (iterations + 1, Suc k, m3))"
    using body nomax reach k by (subst timed_loop.simps) simp
  then show ?case by blast
next
  case (Suc d)
  have nomax: "iterations \<noteq> LLONG_MAX" using Suc.prems(4) by simp
  obtain m3 where body: "timed_loop_body hw now a start_time k iterations m =
       Some (if iterations = LLONG_MAX then Inl (Signed_overflow, m3)
             else Inr (iterations + 1, duration_cast_seconds (now k - start_time), m3))"
    and frame: "\<forall>r. r \<noteq> Y_ref \<longrightarrow> vectors m3 r = vectors m r"
    using timed_loop_body_effect [OF W Suc.prems(1,2), of now a start_time k iterations] by blast
  have x3: "vectors m3 X_ref = vectors m X_ref"
    and o3: "vectors m3 Y_original_ref = vectors m Y_original_ref"
    using frame refs_distinct by simp_all
  show ?case
  proof (cases "T \<le> duration_cast_seconds (now k - start_time)")
    case True
    then have "timed_loop hw now a T start_time k iterations m =
        Some (Inr (iterations + 1, Suc k, m3))"
      using body nomax by (subst timed_loop.simps) simp
    then show ?thesis by blast
  next
    case False
    have d: "d = j - Suc k" using Suc.hyps(2) by simp
    have eq3: "length (vectors m3 X_ref) = length (vectors m3 Y_original_ref)"
      using x3 o3 Suc.prems(1) by simp
    have sz3: "length (vectors m3 Y_original_ref) \<le> max_size"
      using o3 Suc.prems(2) by simp
    have kj': "Suc k \<le> j" using Suc.hyps(2) by simp
    have room': "iterations + 1 + int (j - Suc k) < LLONG_MAX"
      using Suc.prems(4) Suc.hyps(2) by simp
    obtain iterations' k' m' where
      "timed_loop hw now a T start_time (Suc k) (iterations + 1) m3 = Some (Inr (iterations', k', m'))"
      using Suc.hyps(1) [OF d eq3 sz3 kj' room'] by blast
    then have "timed_loop hw now a T start_time k iterations m = Some (Inr (iterations', k', m'))"
      using body nomax False by (subst timed_loop.simps) simp
    then show ?thesis by blast
  qed
qed

section \<open>Initialization\<close>

lemma length_iota: "length (iota rnd k v) = k"
  by (induction k arbitrary: v) simp_all

lemma iota_ramp:
  assumes rnd: "\<forall>q. binary32 q \<longrightarrow> rnd q = q"
  shows "s + k \<le> 2 ^ 24 \<Longrightarrow> iota rnd k (of_nat s) = map of_nat [s..<s + k]"
proof (induction k arbitrary: s)
  case 0
  then show ?case by simp
next
  case (Suc k)
  have "Suc s \<le> 2 ^ 24" using Suc.prems by simp
  then have "rnd (of_nat (Suc s)) = of_nat (Suc s)" using rnd binary32_nat by blast
  then have step: "rnd (of_nat s + 1) = of_nat (Suc s)" by (simp add: add.commute)
  have "iota rnd k (of_nat (Suc s)) = map of_nat [Suc s..<Suc s + k]"
    using Suc.IH [of "Suc s"] Suc.prems by simp
  then show ?case using step by (simp add: upt_conv_Cons)
qed

lemma length_fill_y: "length (fill_y rnd N i y) = length y"
proof (induction rnd N i y rule: fill_y.induct)
  case (1 rnd N i y)
  show ?case
  proof (cases "i < N")
    case True
    then show ?thesis using "1.IH" by (subst fill_y.simps) simp
  next
    case False
    then show ?thesis by (subst fill_y.simps) simp
  qed
qed

lemma fill_y_eq:
  "length y = N \<Longrightarrow> i \<le> N \<Longrightarrow>
   fill_y rnd N i y = take i y @ map (\<lambda>j. rnd (of_nat (N - j))) [i..<N]"
proof (induction rnd N i y rule: fill_y.induct)
  case (1 rnd N i y)
  show ?case
  proof (cases "i < N")
    case True
    let ?y' = "y[i := rnd (of_nat (N - i))]"
    have "fill_y rnd N i y = fill_y rnd N (i + 1) ?y'"
      using True by (subst fill_y.simps) simp
    also have "\<dots> = take (i + 1) ?y' @ map (\<lambda>j. rnd (of_nat (N - j))) [i + 1..<N]"
      using "1.IH" [OF True] "1.prems" True by simp
    also have "take (i + 1) ?y' = take i y @ [rnd (of_nat (N - i))]"
      using True "1.prems" by (simp add: take_Suc_conv_app_nth)
    finally show ?thesis using True by (simp add: upt_conv_Cons)
  next
    case False
    then have "i = N" using "1.prems" by simp
    then show ?thesis using "1.prems" by (subst fill_y.simps) simp
  qed
qed

lemma initialize_vectors:
  "vectors (initialize rnd N) X_ref = iota rnd N 0"
  "vectors (initialize rnd N) Y_ref = fill_y rnd N 0 (replicate N 0)"
  "vectors (initialize rnd N) Y_original_ref = fill_y rnd N 0 (replicate N 0)"
  "accesses (initialize rnd N) = []"
  using refs_distinct by (simp_all add: initialize_def Let_def)

lemma initialize_lengths:
  "length (vectors (initialize rnd N) X_ref) = N"
  "length (vectors (initialize rnd N) Y_original_ref) = N"
  by (simp_all add: initialize_vectors length_iota length_fill_y)

lemma initialize_ramps:
  assumes rnd: "\<forall>q. binary32 q \<longrightarrow> rnd q = q" and N: "N \<le> 2 ^ 24"
  shows "vectors (initialize rnd N) X_ref = map of_nat [0..<N]"
    and "vectors (initialize rnd N) Y_original_ref = map (\<lambda>i. of_nat (N - i)) [0..<N]"
proof -
  have "iota rnd N (of_nat 0) = map of_nat [0..<0 + N]"
    using iota_ramp [OF rnd, of 0 N] N by simp
  then show "vectors (initialize rnd N) X_ref = map of_nat [0..<N]"
    by (simp add: initialize_vectors)
  have "fill_y rnd N 0 (replicate N 0) = map (\<lambda>j. rnd (of_nat (N - j))) [0..<N]"
    using fill_y_eq [of "replicate N 0" N 0 rnd] by simp
  also have "\<dots> = map (\<lambda>j. of_nat (N - j)) [0..<N]"
  proof (rule map_cong [OF refl])
    fix j assume "j \<in> set [0..<N]"
    have "N - j \<le> 2 ^ 24" using N by simp
    then show "rnd (of_nat (N - j)) = of_nat (N - j)" using rnd binary32_nat by blast
  qed
  finally show "vectors (initialize rnd N) Y_original_ref = map (\<lambda>i. of_nat (N - i)) [0..<N]"
    by (simp add: initialize_vectors)
qed

section \<open>The driver as a whole\<close>

lemma sample_in_range_sizes:
  assumes "42 < N" and "N \<le> max_size"
    and "length (vectors m X_ref) = N" and "length (vectors m Y_original_ref) = N"
    and "length (vectors m Y_ref) = N"
  shows "sample_in_range m N"
proof -
  have u: "unat (of_nat N :: 64 word) = N" using assms(2) by (rule unat_of_nat_size)
  then have "(of_nat N :: 64 word) \<noteq> 0" using assms(1) by auto
  then have "unat ((of_nat N :: 64 word) - 1) = N - 1" using u by (simp add: unat_minus_one)
  then show ?thesis
    using assms by (simp add: sample_in_range_def indices_to_check_def)
qed

lemma main_with_Inr:
  assumes "main_with W rnd fp now N a T = Some (Inr (rep, m'))"
  shows "\<exists>iterations k.
     timed_loop (binary32_cpu W rnd) now a T (now 0) 1 0 (initialize rnd N) =
       Some (Inr (iterations, k, m')) \<and>
     rep = final_report fp N iterations (duration_cast_microseconds (now k - now 0))"
proof (cases "timed_loop (binary32_cpu W rnd) now a T (now 0) 1 0 (initialize rnd N)")
  case None
  then show ?thesis using assms by (simp add: main_with_def)
next
  case (Some r)
  show ?thesis
  proof (cases r)
    case (Inl e)
    then show ?thesis using assms Some by (simp add: main_with_def)
  next
    case (Inr p)
    obtain iterations k m'' where p: "p = (iterations, k, m'')" by (cases p)
    show ?thesis
      using assms Some Inr p by (simp add: main_with_def Let_def split: if_splits)
  qed
qed

lemma main_with_run:
  assumes "timed_loop (binary32_cpu W rnd) now a T (now 0) 1 0 (initialize rnd N) =
       Some (Inr (iterations, k, m'))"
    and "sample_in_range m' N"
  shows "main_with W rnd fp now N a T =
     Some (Inr (final_report fp N iterations (duration_cast_microseconds (now k - now 0)), m'))"
  using assms by (simp add: main_with_def Let_def)

lemma main_with_partial:
  assumes W: "W \<noteq> 0" and N: "N \<le> max_size"
    and ret: "main_with W rnd fp now N a T = Some (Inr (rep, m'))"
  shows "\<exists>calls. calls = count_list (accesses m') Call_sve_saxpy \<and> 1 \<le> calls \<and>
     rep = final_report fp N (int calls)
             (duration_cast_microseconds (now (Suc calls) - now 0)) \<and>
     vectors m' X_ref = vectors (initialize rnd N) X_ref \<and>
     vectors m' Y_original_ref = vectors (initialize rnd N) Y_original_ref"
proof -
  let ?hw = "binary32_cpu W rnd"
  let ?m = "initialize rnd N"
  have Whw: "lanes ?hw \<noteq> 0" using W by (simp add: binary32_cpu_def)
  have eq: "length (vectors ?m X_ref) = length (vectors ?m Y_original_ref)"
    by (simp add: initialize_lengths)
  have sz: "length (vectors ?m Y_original_ref) \<le> max_size"
    using N by (simp add: initialize_lengths)
  obtain iterations k where loop: "timed_loop ?hw now a T (now 0) 1 0 ?m = Some (Inr (iterations, k, m'))"
    and rep: "rep = final_report fp N iterations (duration_cast_microseconds (now k - now 0))"
    using main_with_Inr [OF ret] by blast
  have P: "vectors m' X_ref = vectors ?m X_ref \<and>
     vectors m' Y_original_ref = vectors ?m Y_original_ref \<and>
     1 < k \<and> iterations = 0 + int (k - 1) \<and>
     count_list (accesses m') Call_sve_saxpy = count_list (accesses ?m) Call_sve_saxpy + (k - 1)"
    using timed_loop_partial [OF loop Whw eq sz] by (simp add: loop_machine_of_def)
  then have calls: "count_list (accesses m') Call_sve_saxpy = k - 1"
    by (simp add: initialize_vectors)
  have k: "Suc (k - 1) = k" "1 \<le> k - 1" "iterations = int (k - 1)" using P by auto
  show ?thesis
    using P calls k rep by simp
qed

lemma main_with_loop_returns:
  assumes W: "W \<noteq> 0" and N: "N \<le> max_size" and big: "42 < N"
    and loop: "timed_loop (binary32_cpu W rnd) now a T (now 0) 1 0 (initialize rnd N) =
       Some (Inr (iterations, k, m'))"
  shows "main_with W rnd fp now N a T =
     Some (Inr (final_report fp N iterations (duration_cast_microseconds (now k - now 0)), m'))"
proof -
  let ?hw = "binary32_cpu W rnd"
  let ?m = "initialize rnd N"
  have Whw: "lanes ?hw \<noteq> 0" using W by (simp add: binary32_cpu_def)
  have eq: "length (vectors ?m X_ref) = length (vectors ?m Y_original_ref)"
    by (simp add: initialize_lengths)
  have sz: "length (vectors ?m Y_original_ref) \<le> max_size"
    using N by (simp add: initialize_lengths)
  have P: "vectors m' X_ref = vectors ?m X_ref \<and>
     vectors m' Y_original_ref = vectors ?m Y_original_ref \<and>
     vectors m' Y_ref = map2 (fmad ?hw a) (vectors ?m X_ref) (vectors ?m Y_original_ref)"
    using timed_loop_partial [OF loop Whw eq sz] by (simp add: loop_machine_of_def)
  have "sample_in_range m' N"
    by (rule sample_in_range_sizes [OF big N]) (simp_all add: P initialize_lengths)
  then show ?thesis by (rule main_with_run [OF loop])
qed

lemma main_with_total:
  assumes W: "W \<noteq> 0" and N: "N \<le> max_size" and big: "42 < N"
    and j: "1 \<le> j" and room: "int j < LLONG_MAX"
    and reach: "T \<le> duration_cast_seconds (now j - now 0)"
  shows "\<exists>rep m'. main_with W rnd fp now N a T = Some (Inr (rep, m'))"
proof -
  let ?hw = "binary32_cpu W rnd"
  let ?m = "initialize rnd N"
  have Whw: "lanes ?hw \<noteq> 0" using W by (simp add: binary32_cpu_def)
  have eq: "length (vectors ?m X_ref) = length (vectors ?m Y_original_ref)"
    by (simp add: initialize_lengths)
  have sz: "length (vectors ?m Y_original_ref) \<le> max_size"
    using N by (simp add: initialize_lengths)
  have room': "0 + int (j - 1) < LLONG_MAX" using room j by simp
  have "\<exists>iterations k m'.
      timed_loop ?hw now a T (now 0) 1 0 ?m = Some (Inr (iterations, k, m'))"
  proof (rule timed_loop_total [where j = j])
    show "lanes ?hw \<noteq> 0" by (rule Whw)
    show "length (vectors ?m X_ref) = length (vectors ?m Y_original_ref)" by (rule eq)
    show "length (vectors ?m Y_original_ref) \<le> max_size" by (rule sz)
    show "T \<le> duration_cast_seconds (now j - now 0)" by (rule reach)
    show "1 \<le> j" by (rule j)
    show "0 + int (j - 1) < LLONG_MAX" by (rule room')
  qed
  then show ?thesis using main_with_loop_returns [OF W N big] by blast
qed

lemma main_with_zero_target:
  assumes W: "W \<noteq> 0" and N: "N \<le> max_size" and big: "42 < N"
    and T: "T \<le> 0" and clock: "now 0 \<le> now 1"
  shows "\<exists>rep m'. main_with W rnd fp now N a T = Some (Inr (rep, m')) \<and>
     total_iterations rep = 1"
proof -
  let ?hw = "binary32_cpu W rnd"
  let ?m = "initialize rnd N"
  have Whw: "lanes ?hw \<noteq> 0" using W by (simp add: binary32_cpu_def)
  have eq: "length (vectors ?m X_ref) = length (vectors ?m Y_original_ref)"
    by (simp add: initialize_lengths)
  have sz: "length (vectors ?m Y_original_ref) \<le> max_size"
    using N by (simp add: initialize_lengths)
  obtain m3 where body: "timed_loop_body ?hw now a (now 0) 1 0 ?m =
       Some (if (0 :: int) = LLONG_MAX then Inl (Signed_overflow, m3)
             else Inr (0 + 1, duration_cast_seconds (now 1 - now 0), m3))"
    using timed_loop_body_effect [OF Whw eq sz, of now a "now 0" 1 0] by blast
  have "0 \<le> duration_cast_seconds (now 1 - now 0)"
    using clock by (simp add: duration_cast_seconds_nonneg)
  then have "T \<le> duration_cast_seconds (now 1 - now 0)" using T by simp
  then have "timed_loop ?hw now a T (now 0) 1 0 ?m = Some (Inr (1, Suc 1, m3))"
    using body by (subst timed_loop.simps) (simp add: LLONG_MAX_def)
  then have "main_with W rnd fp now N a T =
     Some (Inr (final_report fp N 1 (duration_cast_microseconds (now (Suc 1) - now 0)), m3))"
    by (rule main_with_loop_returns [OF W N big])
  then show ?thesis by (simp add: final_report_def Let_def)
qed

lemma main_with_kernel_effect:
  assumes W: "W \<noteq> 0" and N: "N \<le> max_size"
    and ret: "main_with W rnd fp now N a T = Some (Inr (rep, m'))"
  shows "vectors m' Y_ref =
     map2 (\<lambda>x y. rnd (a * x + y)) (vectors (initialize rnd N) X_ref)
       (vectors (initialize rnd N) Y_original_ref)"
proof -
  let ?hw = "binary32_cpu W rnd"
  let ?m = "initialize rnd N"
  have Whw: "lanes ?hw \<noteq> 0" using W by (simp add: binary32_cpu_def)
  have eq: "length (vectors ?m X_ref) = length (vectors ?m Y_original_ref)"
    by (simp add: initialize_lengths)
  have sz: "length (vectors ?m Y_original_ref) \<le> max_size"
    using N by (simp add: initialize_lengths)
  obtain iterations k where loop:
    "timed_loop ?hw now a T (now 0) 1 0 ?m = Some (Inr (iterations, k, m'))"
    using main_with_Inr [OF ret] by blast
  have "vectors m' Y_ref =
      map2 (fmad ?hw a) (vectors ?m X_ref) (vectors ?m Y_original_ref)"
    using timed_loop_partial [OF loop Whw eq sz] by simp
  moreover have "fmad ?hw a = (\<lambda>x y. rnd (a * x + y))" by (simp add: binary32_cpu_def)
  ultimately show ?thesis by simp
qed

section \<open>The claims\<close>

text \<open>
  C1. For every scalar \<open>a\<close>, every lane count of at least 1 and every pair of
  vectors \<open>x\<close> and \<open>y\<close> of the same length \<open>n\<close> (no longer than a vector can be),
  \<open>sve_saxpy\<close> returns, \<open>y\<close> keeps its length, and \<open>y[i]\<close> is the multiply-add of \<open>a\<close>,
  \<open>x[i]\<close> and the old \<open>y[i]\<close> for every \<open>i < n\<close>, whether or not \<open>n\<close> is a multiple of the
  lane count; for \<open>n = 0\<close> the call leaves the machine as it was.
\<close>

theorem sve_saxpy_computes_axpy:
  assumes "lanes hw \<noteq> 0"
    and "length (vectors m x) = n" and "length (vectors m y) = n" and "n \<le> max_size"
  shows "\<exists>m'. sve_saxpy hw a x y m = Some (Inr m') \<and>
     length (vectors m' y) = n \<and>
     (\<forall>i < n. vectors m' y ! i = fmad hw a (vectors m x ! i) (vectors m y ! i)) \<and>
     (n = 0 \<longrightarrow> m' = m)"
proof -
  obtain m' evs where m': "sve_saxpy hw a x y m = Some (Inr m')"
    "\<forall>r. r \<noteq> y \<longrightarrow> vectors m' r = vectors m r"
    "length (vectors m' y) = length (vectors m y)"
    "\<forall>j < length (vectors m y).
        vectors m' y ! j = fmad hw a (vectors m x ! j) (vectors m y ! j)"
    "accesses m' = accesses m @ evs"
    "\<forall>ev \<in> set evs. \<exists>j < length (vectors m y).
           ev = Load x j \<or> ev = Load y j \<or> ev = Store y j"
    using sve_saxpy_effect [of hw m x y a] assms by auto
  have "m' = m" if "n = 0"
  proof -
    have "evs = []" using m'(6) assms(3) that by (cases evs) auto
    then have acc: "accesses m' = accesses m" using m'(5) by simp
    have "vectors m' r = vectors m r" for r
      using m'(2,3) assms(3) that by (cases "r = y") auto
    then have "vectors m' = vectors m" by (rule ext)
    then show ?thesis using acc by simp
  qed
  then show ?thesis using m'(1,3,4) assms by auto
qed

theorem sve_saxpy_computes_axpy_witness:
  "lanes (binary32_cpu 4 (\<lambda>q. q)) \<noteq> 0 \<and> length (vectors sample 0) = 5 \<and>
   length (vectors sample 1) = 5 \<and> 5 \<le> max_size \<and>
   (\<exists>m'. sve_saxpy (binary32_cpu 4 (\<lambda>q. q)) (5 / 2) 0 1 sample = Some (Inr m') \<and>
      length (vectors m' 1) = 5 \<and>
      (\<forall>i < 5. vectors m' 1 ! i = 5 / 2 * ([0, 1, 2, 3, 4] ! i) + [5, 4, 3, 2, 1] ! i))"
  using sve_saxpy_computes_axpy [of "binary32_cpu 4 (\<lambda>q. q)" sample 0 5 1 "5 / 2"]
  by (simp add: binary32_cpu_def sample_def max_size_def)

text \<open>
  C2. When the two vectors differ in length, \<open>sve_saxpy\<close> throws the runtime error, and
  the machine at the throw is the machine at entry: no element has been read or written
  and \<open>y\<close> is unchanged.
\<close>

theorem sve_saxpy_size_mismatch:
  assumes "length (vectors m x) \<noteq> length (vectors m y)"
  shows "sve_saxpy hw a x y m = Some (Inl (Runtime_error ''Vector sizes must be equal.'', m))"
  using assms by (simp add: sve_saxpy_def)

theorem sve_saxpy_size_mismatch_witness:
  "length (vectors sample 0) \<noteq> length (vectors sample 2) \<and>
   sve_saxpy (binary32_cpu 4 (\<lambda>q. q)) (5 / 2) 0 2 sample =
     Some (Inl (Runtime_error ''Vector sizes must be equal.'', sample)) \<and>
   accesses sample = [] \<and> vectors sample 2 = [7, 7]"
  using sve_saxpy_size_mismatch [of sample 0 2 "binary32_cpu 4 (\<lambda>q. q)" "5 / 2"]
  by (simp add: sample_def)

text \<open>
  C3. For every length \<open>n\<close> and every lane count of at least 1, a multiple of the lane
  count or not, \<open>sve_saxpy\<close> returns without an out-of-bounds access, and every element
  it loads or stores is an element of \<open>x\<close> or \<open>y\<close> at an index below \<open>n\<close>. A lane of the
  predicate is active exactly when its global index is below \<open>n\<close>.
\<close>

theorem sve_saxpy_in_bounds:
  assumes "lanes hw \<noteq> 0"
    and "length (vectors m x) = n" and "length (vectors m y) = n" and "n \<le> max_size"
  shows "(\<exists>m' evs. sve_saxpy hw a x y m = Some (Inr m') \<and>
      accesses m' = accesses m @ evs \<and>
      (\<forall>ev \<in> set evs. \<exists>j < n. ev = Load x j \<or> ev = Load y j \<or> ev = Store y j)) \<and>
     (\<forall>i k. k < unat (lanes hw) \<longrightarrow>
        svwhilelt_b32 hw i (of_nat n) ! k = (unat i + k < n))"
proof -
  have "\<exists>m' evs. sve_saxpy hw a x y m = Some (Inr m') \<and>
      accesses m' = accesses m @ evs \<and>
      (\<forall>ev \<in> set evs. \<exists>j < n. ev = Load x j \<or> ev = Load y j \<or> ev = Store y j)"
    using sve_saxpy_effect [of hw m x y a] assms by auto
  moreover have "\<forall>i k. k < unat (lanes hw) \<longrightarrow>
        svwhilelt_b32 hw i (of_nat n) ! k = (unat i + k < n)"
    using assms(4) by (simp add: svwhilelt_b32_nth unat_of_nat_size)
  ultimately show ?thesis by blast
qed

theorem sve_saxpy_in_bounds_witness:
  "lanes (binary32_cpu 4 (\<lambda>q. q)) \<noteq> 0 \<and> length (vectors sample 0) = 5 \<and>
   length (vectors sample 1) = 5 \<and> 5 \<le> max_size \<and> \<not> 4 dvd (5 :: nat) \<and>
   (\<exists>m'. sve_saxpy (binary32_cpu 4 (\<lambda>q. q)) (5 / 2) 0 1 sample = Some (Inr m') \<and>
      accesses m' =
        [Load 0 0, Load 0 1, Load 0 2, Load 0 3, Load 1 0, Load 1 1, Load 1 2, Load 1 3,
         Store 1 0, Store 1 1, Store 1 2, Store 1 3, Load 0 4, Load 1 4, Store 1 4])"
proof -
  let ?hw = "binary32_cpu 4 (\<lambda>q. q)"
  have h1: "lanes ?hw \<noteq> 0" by (simp add: binary32_cpu_def)
  have h2: "length (vectors sample 0) = 5" by (simp add: sample_def)
  have h3: "length (vectors sample 1) = 5" by (simp add: sample_def)
  have h4: "(5 :: nat) \<le> max_size" by (simp add: max_size_def)
  obtain m' where ret: "sve_saxpy ?hw (5 / 2) 0 1 sample = Some (Inr m')"
    using sve_saxpy_in_bounds [OF h1 h2 h3 h4, of "5 / 2"] by blast
  have "map_option (\<lambda>res. accesses (machine_of res)) (sve_saxpy ?hw (5 / 2) 0 1 sample) =
      Some [Load 0 0, Load 0 1, Load 0 2, Load 0 3, Load 1 0, Load 1 1, Load 1 2, Load 1 3,
         Store 1 0, Store 1 1, Store 1 2, Store 1 3, Load 0 4, Load 1 4, Store 1 4]"
    by code_simp
  then have "accesses m' =
        [Load 0 0, Load 0 1, Load 0 2, Load 0 3, Load 1 0, Load 1 1, Load 1 2, Load 1 3,
         Store 1 0, Store 1 1, Store 1 2, Store 1 3, Load 0 4, Load 1 4, Store 1 4]"
    using ret by (simp add: machine_of_def)
  then show ?thesis using h1 h2 h3 h4 ret by simp
qed

text \<open>
  C4. For every lane count of at least 1 and vectors of any lengths a vector can have,
  the call returns: the loop of \<open>sve_saxpy\<close> exits.
\<close>

theorem sve_saxpy_terminates:
  assumes "lanes hw \<noteq> 0"
    and "length (vectors m x) \<le> max_size" and "length (vectors m y) \<le> max_size"
  shows "\<exists>res. sve_saxpy hw a x y m = Some res"
proof (cases "length (vectors m x) = length (vectors m y)")
  case True
  then show ?thesis using sve_saxpy_effect [of hw m x y a] assms by auto
next
  case False
  then show ?thesis by (simp add: sve_saxpy_def)
qed

theorem sve_saxpy_terminates_witness:
  "lanes (binary32_cpu 4 (\<lambda>q. q)) \<noteq> 0 \<and> length (vectors sample 0) \<le> max_size \<and>
   length (vectors sample 1) \<le> max_size \<and>
   (\<exists>res. sve_saxpy (binary32_cpu 4 (\<lambda>q. q)) (5 / 2) 0 1 sample = Some res)"
  using sve_saxpy_terminates [of "binary32_cpu 4 (\<lambda>q. q)" sample 0 1 "5 / 2"]
  by (simp add: binary32_cpu_def sample_def max_size_def)

text \<open>
  C5. With \<open>a = 2.5\<close>, \<open>X = [0, 1, 2, 3, 4]\<close> and \<open>Y = [5, 4, 3, 2, 1]\<close>, on every lane
  count of at least 1 and with every rounding that leaves the numbers of the format
  as they are, \<open>sve_saxpy\<close> leaves \<open>Y = [5, 6.5, 8, 9.5, 11]\<close>.
\<close>

theorem sve_saxpy_sample_scenario:
  assumes "W \<noteq> 0" and "\<forall>q. binary32 q \<longrightarrow> rnd q = q"
    and "vectors m x = [0, 1, 2, 3, 4]" and "vectors m y = [5, 4, 3, 2, 1]"
  shows "\<exists>m'. sve_saxpy (binary32_cpu W rnd) (5 / 2) x y m = Some (Inr m') \<and>
     vectors m' y = [5, 13 / 2, 8, 19 / 2, 11]"
proof -
  let ?hw = "binary32_cpu W rnd"
  have W: "lanes ?hw \<noteq> 0" using assms(1) by (simp add: binary32_cpu_def)
  have eq: "length (vectors m x) = length (vectors m y)" using assms(3,4) by simp
  have sz: "length (vectors m y) \<le> max_size" using assms(4) by (simp add: max_size_def)
  obtain m' where run: "sve_saxpy ?hw (5 / 2) x y m = Some (Inr m')"
    and len: "length (vectors m' y) = length (vectors m y)"
    and vals: "\<forall>j < length (vectors m y).
        vectors m' y ! j = fmad ?hw (5 / 2) (vectors m x ! j) (vectors m y ! j)"
    using sve_saxpy_effect [OF W eq sz, of "5 / 2"] by blast
  have r5: "rnd 5 = 5" using assms(2) binary32_int [of 5] by simp
  have r13: "rnd (13 / 2) = 13 / 2" using assms(2) binary32_half [of 13] by simp
  have r8: "rnd 8 = 8" using assms(2) binary32_int [of 8] by simp
  have r19: "rnd (19 / 2) = 19 / 2" using assms(2) binary32_half [of 19] by simp
  have r11: "rnd 11 = 11" using assms(2) binary32_int [of 11] by simp
  have "vectors m' y ! i = [5, 13 / 2, 8, 19 / 2, 11] ! i" if "i < 5" for i
  proof -
    have "vectors m' y ! i = rnd (5 / 2 * ([0, 1, 2, 3, 4] ! i) + [5, 4, 3, 2, 1] ! i)"
      using vals that assms(3,4) by (simp add: binary32_cpu_def)
    then show ?thesis
      using less_5_cases [OF that] r5 r13 r8 r19 r11 by auto
  qed
  moreover have "length (vectors m' y) = 5" using len assms(4) by simp
  ultimately have "vectors m' y = [5, 13 / 2, 8, 19 / 2, 11]"
    by (simp add: list_eq_iff_nth_eq)
  then show ?thesis using run by blast
qed

theorem sve_saxpy_sample_scenario_witness:
  "(4 :: 64 word) \<noteq> 0 \<and> vectors sample 0 = [0, 1, 2, 3, 4] \<and>
   vectors sample 1 = [5, 4, 3, 2, 1] \<and>
   (\<exists>m'. sve_saxpy (binary32_cpu 4 (\<lambda>q. q)) (5 / 2) 0 1 sample = Some (Inr m') \<and>
      vectors m' 1 = [5, 13 / 2, 8, 19 / 2, 11])"
  using sve_saxpy_sample_scenario [of 4 "\<lambda>q. q" sample 0 1]
  by (simp add: sample_def)

text \<open>
  C6. Two calls of \<open>sve_saxpy\<close> with the same scalar and the same contents of \<open>X\<close> and
  \<open>Y\<close>, in whatever machines and vectors they stand, both return and leave the same
  contents in \<open>Y\<close>. In the driver, two consecutive passes through the loop body leave the
  same contents in \<open>y\<close>.
\<close>

theorem sve_saxpy_deterministic:
  assumes "lanes hw \<noteq> 0"
    and "vectors m1 x1 = vectors m2 x2" and "vectors m1 y1 = vectors m2 y2"
    and "length (vectors m1 x1) = length (vectors m1 y1)"
    and "length (vectors m1 y1) \<le> max_size"
    and "length (vectors d X_ref) = length (vectors d Y_original_ref)"
    and "length (vectors d Y_original_ref) \<le> max_size"
    and "iterations + 1 < LLONG_MAX"
  shows "(\<exists>m1' m2'. sve_saxpy hw a x1 y1 m1 = Some (Inr m1') \<and>
        sve_saxpy hw a x2 y2 m2 = Some (Inr m2') \<and> vectors m1' y1 = vectors m2' y2) \<and>
     (\<exists>e1 d1 e2 d2.
        timed_loop_body hw now a start_time k iterations d =
          Some (Inr (iterations + 1, e1, d1)) \<and>
        timed_loop_body hw now a start_time (Suc k) (iterations + 1) d1 =
          Some (Inr (iterations + 2, e2, d2)) \<and>
        vectors d2 Y_ref = vectors d1 Y_ref)"
proof -
  obtain m1' where r1: "sve_saxpy hw a x1 y1 m1 = Some (Inr m1')"
    "vectors m1' y1 = map2 (fmad hw a) (vectors m1 x1) (vectors m1 y1)"
    using sve_saxpy_result [OF assms(1,4,5), of a] by blast
  have eq2: "length (vectors m2 x2) = length (vectors m2 y2)" using assms(2,3,4) by simp
  have sz2: "length (vectors m2 y2) \<le> max_size" using assms(3,5) by simp
  obtain m2' where r2: "sve_saxpy hw a x2 y2 m2 = Some (Inr m2')"
    "vectors m2' y2 = map2 (fmad hw a) (vectors m2 x2) (vectors m2 y2)"
    using sve_saxpy_result [OF assms(1) eq2 sz2, of a] by blast
  have kernel: "\<exists>m1' m2'. sve_saxpy hw a x1 y1 m1 = Some (Inr m1') \<and>
        sve_saxpy hw a x2 y2 m2 = Some (Inr m2') \<and> vectors m1' y1 = vectors m2' y2"
    using r1 r2 assms(2,3) by simp
  have n1: "iterations \<noteq> LLONG_MAX" and n2: "iterations + 1 \<noteq> LLONG_MAX"
    using assms(8) by simp_all
  obtain d1 where b1: "timed_loop_body hw now a start_time k iterations d =
       Some (Inr (iterations + 1, duration_cast_seconds (now k - start_time), d1))"
    and f1: "\<forall>r. r \<noteq> Y_ref \<longrightarrow> vectors d1 r = vectors d r"
    and y1: "vectors d1 Y_ref = map2 (fmad hw a) (vectors d X_ref) (vectors d Y_original_ref)"
    using timed_loop_body_effect [OF assms(1,6,7), of now a start_time k iterations] n1
    by auto
  have x1: "vectors d1 X_ref = vectors d X_ref"
    and o1: "vectors d1 Y_original_ref = vectors d Y_original_ref"
    using f1 refs_distinct by simp_all
  have eq1: "length (vectors d1 X_ref) = length (vectors d1 Y_original_ref)"
    using x1 o1 assms(6) by simp
  have sz1: "length (vectors d1 Y_original_ref) \<le> max_size" using o1 assms(7) by simp
  obtain d2 where b2: "timed_loop_body hw now a start_time (Suc k) (iterations + 1) d1 =
       Some (Inr (iterations + 1 + 1, duration_cast_seconds (now (Suc k) - start_time), d2))"
    and y2: "vectors d2 Y_ref = map2 (fmad hw a) (vectors d1 X_ref) (vectors d1 Y_original_ref)"
    using timed_loop_body_effect [OF assms(1) eq1 sz1, of now a start_time "Suc k" "iterations + 1"] n2
    by auto
  have "vectors d2 Y_ref = vectors d1 Y_ref" using y1 y2 x1 o1 by simp
  then have driver: "\<exists>e1 d1 e2 d2.
        timed_loop_body hw now a start_time k iterations d =
          Some (Inr (iterations + 1, e1, d1)) \<and>
        timed_loop_body hw now a start_time (Suc k) (iterations + 1) d1 =
          Some (Inr (iterations + 2, e2, d2)) \<and>
        vectors d2 Y_ref = vectors d1 Y_ref"
    using b1 b2 by auto
  show ?thesis using kernel driver by (rule conjI)
qed

theorem sve_saxpy_deterministic_witness:
  "lanes (binary32_cpu 4 (\<lambda>q. q)) \<noteq> 0 \<and>
   vectors sample 0 = vectors (sample\<lparr>accesses := [Call_sve_saxpy]\<rparr>) 0 \<and>
   vectors sample 1 = vectors (sample\<lparr>accesses := [Call_sve_saxpy]\<rparr>) 1 \<and>
   length (vectors sample 0) = length (vectors sample 1) \<and>
   length (vectors sample 1) \<le> max_size \<and>
   (\<exists>m1' m2'. sve_saxpy (binary32_cpu 4 (\<lambda>q. q)) (5 / 2) 0 1 sample = Some (Inr m1') \<and>
      sve_saxpy (binary32_cpu 4 (\<lambda>q. q)) (5 / 2) 0 1 (sample\<lparr>accesses := [Call_sve_saxpy]\<rparr>)
        = Some (Inr m2') \<and>
      vectors m1' 1 = vectors m2' 1) \<and>
   (\<exists>e1 d1 e2 d2.
      timed_loop_body (binary32_cpu 4 (\<lambda>q. q)) sample_clock (5 / 2) 1000 1 0
          (initialize (\<lambda>q. q) 5) = Some (Inr (1, e1, d1)) \<and>
      timed_loop_body (binary32_cpu 4 (\<lambda>q. q)) sample_clock (5 / 2) 1000 (Suc 1) 1 d1
        = Some (Inr (2, e2, d2)) \<and>
      vectors d2 Y_ref = vectors d1 Y_ref)"
proof -
  let ?hw = "binary32_cpu 4 (\<lambda>q. q)"
  let ?m2 = "sample\<lparr>accesses := [Call_sve_saxpy]\<rparr>"
  let ?d = "initialize (\<lambda>q. q) 5"
  have h1: "lanes ?hw \<noteq> 0" by (simp add: binary32_cpu_def)
  have h2: "vectors sample 0 = vectors ?m2 0" by simp
  have h3: "vectors sample 1 = vectors ?m2 1" by simp
  have h4: "length (vectors sample 0) = length (vectors sample 1)" by (simp add: sample_def)
  have h5: "length (vectors sample 1) \<le> max_size" by (simp add: sample_def max_size_def)
  have h6: "length (vectors ?d X_ref) = length (vectors ?d Y_original_ref)"
    by (simp add: initialize_lengths)
  have h7: "length (vectors ?d Y_original_ref) \<le> max_size"
    by (simp add: initialize_lengths max_size_def)
  have h8: "(0 :: int) + 1 < LLONG_MAX" by (simp add: LLONG_MAX_def)
  show ?thesis
    using sve_saxpy_deterministic [OF h1 h2 h3 h4 h5 h6 h7 h8, of "5 / 2" sample_clock 1000 1]
      h1 h2 h3 h4 h5
    by simp
qed

text \<open>
  C7, as the code has it. The two vectors are passed by reference, and the same vector
  may be passed for both: then \<open>x\<close> is \<open>y\<close> and changes with it. With the sample \<open>Y\<close>
  passed as \<open>x\<close> and as \<open>y\<close>, the vector \<open>[5, 4, 3, 2, 1]\<close> becomes
  \<open>[17.5, 14, 10.5, 7, 3.5]\<close>.
\<close>

theorem aliased_call_changes_x:
  "vector_after (sve_saxpy (binary32_cpu 4 id) (5 / 2) 1 1 sample) 1 =
     Some [35 / 2, 14, 21 / 2, 7, 7 / 2] \<and>
   vectors sample 1 = [5, 4, 3, 2, 1]"
  by code_simp

text \<open>
  C7, amended. A call of \<open>sve_saxpy\<close> returns or throws, and in the machine it leaves
  every vector other than \<open>y\<close> is as it was; so is \<open>x\<close>, when it is another vector than
  \<open>y\<close>. Whenever the timed loop of the driver stops or throws, however many passes it
  has made, \<open>x\<close> and \<open>y_original\<close> are as they were when it started.
\<close>

theorem sve_saxpy_mutates_only_y:
  assumes "lanes hw \<noteq> 0"
    and "length (vectors m x) \<le> max_size" and "length (vectors m y) \<le> max_size"
    and "length (vectors d X_ref) = length (vectors d Y_original_ref)"
    and "length (vectors d Y_original_ref) \<le> max_size"
  shows "(\<exists>res. sve_saxpy hw a x y m = Some res \<and>
        (\<forall>r. r \<noteq> y \<longrightarrow> vectors (machine_of res) r = vectors m r) \<and>
        (x \<noteq> y \<longrightarrow> vectors (machine_of res) x = vectors m x)) \<and>
     (\<forall>res. timed_loop hw now a T start_time k iterations d = Some res \<longrightarrow>
        vectors (loop_machine_of res) X_ref = vectors d X_ref \<and>
        vectors (loop_machine_of res) Y_original_ref = vectors d Y_original_ref)"
proof -
  have kernel: "\<exists>res. sve_saxpy hw a x y m = Some res \<and>
        (\<forall>r. r \<noteq> y \<longrightarrow> vectors (machine_of res) r = vectors m r) \<and>
        (x \<noteq> y \<longrightarrow> vectors (machine_of res) x = vectors m x)"
  proof (cases "length (vectors m x) = length (vectors m y)")
    case True
    obtain m' where "sve_saxpy hw a x y m = Some (Inr m')"
      "\<forall>r. r \<noteq> y \<longrightarrow> vectors m' r = vectors m r"
      using sve_saxpy_effect [OF assms(1) True assms(3), of a] by blast
    then have "sve_saxpy hw a x y m = Some (Inr m') \<and>
        (\<forall>r. r \<noteq> y \<longrightarrow> vectors (machine_of (Inr m')) r = vectors m r) \<and>
        (x \<noteq> y \<longrightarrow> vectors (machine_of (Inr m')) x = vectors m x)"
      by (simp add: machine_of_def)
    then show ?thesis by blast
  next
    case False
    then have "sve_saxpy hw a x y m =
        Some (Inl (Runtime_error ''Vector sizes must be equal.'', m))"
      by (simp add: sve_saxpy_def)
    then show ?thesis by (simp add: machine_of_def)
  qed
  have driver: "\<forall>res. timed_loop hw now a T start_time k iterations d = Some res \<longrightarrow>
        vectors (loop_machine_of res) X_ref = vectors d X_ref \<and>
        vectors (loop_machine_of res) Y_original_ref = vectors d Y_original_ref"
    using timed_loop_partial [OF _ assms(1,4,5)] by blast
  show ?thesis using kernel driver by (rule conjI)
qed

theorem sve_saxpy_mutates_only_y_witness:
  "lanes (binary32_cpu 4 (\<lambda>q. q)) \<noteq> 0 \<and>
   length (vectors sample 0) \<le> max_size \<and> length (vectors sample 1) \<le> max_size \<and>
   (\<exists>res. sve_saxpy (binary32_cpu 4 (\<lambda>q. q)) (5 / 2) 0 1 sample = Some res \<and>
      vectors (machine_of res) 0 = [0, 1, 2, 3, 4] \<and>
      vectors (machine_of res) 2 = [7, 7]) \<and>
   (\<exists>res. timed_loop (binary32_cpu 4 (\<lambda>q. q)) sample_clock (5 / 2) 1 (sample_clock 0) 1 0
        (initialize (\<lambda>q. q) 5) = Some res \<and>
      vectors (loop_machine_of res) X_ref = [0, 1, 2, 3, 4] \<and>
      vectors (loop_machine_of res) Y_original_ref = [5, 4, 3, 2, 1])"
proof -
  let ?hw = "binary32_cpu 4 (\<lambda>q. q)"
  let ?d = "initialize (\<lambda>q. q) 5"
  have h1: "lanes ?hw \<noteq> 0" by (simp add: binary32_cpu_def)
  have h2: "length (vectors sample 0) \<le> max_size" by (simp add: sample_def max_size_def)
  have h3: "length (vectors sample 1) \<le> max_size" by (simp add: sample_def max_size_def)
  have h4: "length (vectors ?d X_ref) = length (vectors ?d Y_original_ref)"
    by (simp add: initialize_lengths)
  have h5: "length (vectors ?d Y_original_ref) \<le> max_size"
    by (simp add: initialize_lengths max_size_def)
  have x0: "vectors ?d X_ref = [0, 1, 2, 3, 4]" by code_simp
  have o0: "vectors ?d Y_original_ref = [5, 4, 3, 2, 1]" by code_simp
  have s0: "vectors sample 0 = [0, 1, 2, 3, 4]" "vectors sample 2 = [7, 7]"
    by (simp_all add: sample_def)
  have reach: "(1 :: int) \<le> duration_cast_seconds (sample_clock 3 - sample_clock 0)"
    by (simp add: duration_cast_seconds_def trunc_div_def sample_clock_def)
  have "\<exists>iterations' k' m'. timed_loop ?hw sample_clock (5 / 2) 1 (sample_clock 0) 1 0 ?d
      = Some (Inr (iterations', k', m'))"
  proof (rule timed_loop_total [where j = 3])
    show "lanes ?hw \<noteq> 0" by (rule h1)
    show "length (vectors ?d X_ref) = length (vectors ?d Y_original_ref)" by (rule h4)
    show "length (vectors ?d Y_original_ref) \<le> max_size" by (rule h5)
    show "1 \<le> duration_cast_seconds (sample_clock 3 - sample_clock 0)" by (rule reach)
    show "(1 :: nat) \<le> 3" by simp
    show "0 + int (3 - 1) < LLONG_MAX" by (simp add: LLONG_MAX_def)
  qed
  then obtain res where ret: "timed_loop ?hw sample_clock (5 / 2) 1 (sample_clock 0) 1 0 ?d
      = Some res" by blast
  note t = sve_saxpy_mutates_only_y [OF h1 h2 h3 h4 h5, of "5 / 2" sample_clock 1
      "sample_clock 0" 1 0]
  have kernel: "\<exists>res. sve_saxpy ?hw (5 / 2) 0 1 sample = Some res \<and>
      vectors (machine_of res) 0 = [0, 1, 2, 3, 4] \<and> vectors (machine_of res) 2 = [7, 7]"
    using t s0 by auto
  have driver: "\<exists>res. timed_loop ?hw sample_clock (5 / 2) 1 (sample_clock 0) 1 0 ?d = Some res \<and>
      vectors (loop_machine_of res) X_ref = [0, 1, 2, 3, 4] \<and>
      vectors (loop_machine_of res) Y_original_ref = [5, 4, 3, 2, 1]"
    using t ret x0 o0 by auto
  show ?thesis using h1 h2 h3 kernel driver by blast
qed

text \<open>
  C8. When the rounding leaves the numbers of the format as they are and the vector
  size is at most \<open>2 ^ 24\<close> (the size of the source, ten million, is), the
  initialization leaves \<open>X[i] = i\<close> and \<open>Y_original[i] = N - i\<close> for all \<open>i < N\<close>; that is
  the memory the timed loop starts from, and whenever \<open>main\<close> reports, the two vectors
  still hold these values.
\<close>

theorem main_initializes_ramps:
  assumes "\<forall>q. binary32 q \<longrightarrow> rnd q = q" and "N \<le> 2 ^ 24"
  shows "vectors (initialize rnd N) X_ref = map of_nat [0..<N] \<and>
     vectors (initialize rnd N) Y_original_ref = map (\<lambda>i. of_nat (N - i)) [0..<N] \<and>
     (\<forall>W fp now a T rep m'. W \<noteq> 0 \<longrightarrow>
        main_with W rnd (fp :: 'd fpu) now N a T = Some (Inr (rep, m')) \<longrightarrow>
        vectors m' X_ref = map of_nat [0..<N] \<and>
        vectors m' Y_original_ref = map (\<lambda>i. of_nat (N - i)) [0..<N])"
proof -
  have N: "N \<le> max_size" using assms(2) by (simp add: max_size_def)
  have x: "vectors (initialize rnd N) X_ref = map of_nat [0..<N]"
    and y: "vectors (initialize rnd N) Y_original_ref = map (\<lambda>i. of_nat (N - i)) [0..<N]"
    using initialize_ramps [OF assms] by simp_all
  have "vectors m' X_ref = map of_nat [0..<N] \<and>
        vectors m' Y_original_ref = map (\<lambda>i. of_nat (N - i)) [0..<N]"
    if "W \<noteq> 0" "main_with W rnd (fp :: 'd fpu) now N a T = Some (Inr (rep, m'))"
    for W fp now a T rep m'
    using main_with_partial [OF that(1) N that(2)] x y by auto
  then show ?thesis using x y by blast
qed

theorem main_initializes_ramps_witness:
  "(10000000 :: nat) \<le> 2 ^ 24 \<and>
   vectors (initialize (\<lambda>q. q) 10000000) X_ref = map of_nat [0..<10000000] \<and>
   vectors (initialize (\<lambda>q. q) 10000000) Y_original_ref =
     map (\<lambda>i. of_nat (10000000 - i)) [0..<10000000]"
proof -
  have h1: "\<forall>q. binary32 q \<longrightarrow> (\<lambda>q. q) q = q" by simp
  have h2: "(10000000 :: nat) \<le> 2 ^ 24" by simp
  show ?thesis
    using main_initializes_ramps [OF h1 h2, where ?'d = rat] h2 by blast
qed

text \<open>
  C9. Whenever \<open>main\<close> reports, the iteration count of the report is the number of
  calls of the kernel, the time it divides by is the time between the reading of the
  clock before the loop and the one after it, in microseconds and divided by \<open>10 ^ 6\<close>,
  and the reported performance is \<open>2 * N * iterations\<close> divided by these seconds and
  by \<open>10 ^ 9\<close>, in the arithmetic of doubles. It does report when the vectors hold
  the sample indices (more than 42 elements) and the clock reaches the target at some
  reading.
\<close>

theorem main_reports_gflops:
  assumes "W \<noteq> 0" and "N \<le> max_size"
  shows "(\<forall>rep m'. main_with W rnd fp now N a T = Some (Inr (rep, m')) \<longrightarrow>
        (let calls = count_list (accesses m') Call_sve_saxpy;
             elapsed_seconds = ddiv fp
               (d_of_int fp (duration_cast_microseconds (now (Suc calls) - now 0)))
               (d_of_int fp 1000000)
         in total_iterations rep = int calls \<and> total_time rep = elapsed_seconds \<and>
            gflops rep = gflops_spec fp (int N) (int calls) elapsed_seconds)) \<and>
     (42 < N \<and>
      (\<exists>j \<ge> 1. int j < LLONG_MAX \<and> T \<le> duration_cast_seconds (now j - now 0)) \<longrightarrow>
        (\<exists>rep m'. main_with W rnd fp now N a T = Some (Inr (rep, m'))))"
proof -
  have "let calls = count_list (accesses m') Call_sve_saxpy;
             elapsed_seconds = ddiv fp
               (d_of_int fp (duration_cast_microseconds (now (Suc calls) - now 0)))
               (d_of_int fp 1000000)
         in total_iterations rep = int calls \<and> total_time rep = elapsed_seconds \<and>
            gflops rep = gflops_spec fp (int N) (int calls) elapsed_seconds"
    if "main_with W rnd fp now N a T = Some (Inr (rep, m'))" for rep m'
    using main_with_partial [OF assms that]
    by (auto simp: Let_def final_report_def gflops_spec_def)
  moreover have "\<exists>rep m'. main_with W rnd fp now N a T = Some (Inr (rep, m'))"
    if "42 < N \<and>
      (\<exists>j \<ge> 1. int j < LLONG_MAX \<and> T \<le> duration_cast_seconds (now j - now 0))"
    using that main_with_total [OF assms, of _ T now rnd fp a] by blast
  ultimately show ?thesis by blast
qed

theorem main_reports_gflops_witness:
  "(16 :: 64 word) \<noteq> 0 \<and> (43 :: nat) \<le> max_size \<and> (42 :: nat) < 43 \<and>
   (\<exists>rep m'. main_with 16 (\<lambda>q. q) exact sample_clock 43 (5 / 2) 1 = Some (Inr (rep, m')) \<and>
      count_list (accesses m') Call_sve_saxpy = 3 \<and>
      total_iterations rep = 3 \<and> total_time rep = 8 / 5 \<and> gflops rep = 129 / 800000000)"
proof -
  have h1: "(16 :: 64 word) \<noteq> 0" by simp
  have h2: "(43 :: nat) \<le> max_size" by (simp add: max_size_def)
  have h3: "(42 :: nat) < 43" by simp
  note t = main_reports_gflops [OF h1 h2, of "\<lambda>q. q" exact sample_clock "5 / 2" 1]
  have reach: "\<exists>j \<ge> 1. int j < LLONG_MAX \<and>
      (1 :: int) \<le> duration_cast_seconds (sample_clock j - sample_clock 0)"
    by (rule exI [of _ 3])
      (simp add: duration_cast_seconds_def trunc_div_def sample_clock_def LLONG_MAX_def)
  obtain rep m' where ret: "main_with 16 (\<lambda>q. q) exact sample_clock 43 (5 / 2) 1 = Some (Inr (rep, m'))"
    using t reach h3 by blast
  have calls: "(case main_with 16 (\<lambda>q. q) exact sample_clock 43 (5 / 2) 1 of
      Some (Inr (rep, m')) \<Rightarrow> count_list (accesses m') Call_sve_saxpy | _ \<Rightarrow> 0) = 3"
    by code_simp
  then have c3: "count_list (accesses m') Call_sve_saxpy = 3" using ret by simp
  have "total_iterations rep = 3 \<and> total_time rep = 8 / 5 \<and> gflops rep = 129 / 800000000"
    using t ret c3
    by (simp add: Let_def gflops_spec_def exact_def duration_cast_microseconds_def
        trunc_div_def sample_clock_def)
  then show ?thesis using h1 h2 h3 ret c3 by blast
qed

text \<open>
  C10. The driver tests the elapsed time after the kernel has run: whenever \<open>main\<close>
  reports, the iteration count is at least 1, the kernel has been called at least once,
  and \<open>y\<close> holds what the kernel computes from \<open>x\<close> and the baseline \<open>y_original\<close>,
  \<open>y[i] = a * x[i] + y_original[i]\<close> rounded, whatever the target duration. It does
  report when the vectors hold the sample indices (more than 42 elements) and the clock
  reaches the target at some reading; with a target of 0 (or less) and a clock that
  does not run backwards it reports after exactly one iteration.
\<close>

theorem main_iterates_at_least_once:
  assumes "W \<noteq> 0" and "N \<le> max_size"
  shows "(\<forall>rep m'. main_with W rnd fp now N a T = Some (Inr (rep, m')) \<longrightarrow>
        1 \<le> total_iterations rep \<and> 1 \<le> count_list (accesses m') Call_sve_saxpy \<and>
        length (vectors m' Y_ref) = N \<and>
        (\<forall>i < N. vectors m' Y_ref ! i =
           rnd (a * vectors (initialize rnd N) X_ref ! i +
                  vectors (initialize rnd N) Y_original_ref ! i))) \<and>
     (42 < N \<and>
      (\<exists>j \<ge> 1. int j < LLONG_MAX \<and> T \<le> duration_cast_seconds (now j - now 0)) \<longrightarrow>
        (\<exists>rep m'. main_with W rnd fp now N a T = Some (Inr (rep, m')))) \<and>
     (42 < N \<and> T \<le> 0 \<and> now 0 \<le> now 1 \<longrightarrow>
        (\<exists>rep m'. main_with W rnd fp now N a T = Some (Inr (rep, m')) \<and>
           total_iterations rep = 1))"
proof -
  have "1 \<le> total_iterations rep \<and> 1 \<le> count_list (accesses m') Call_sve_saxpy \<and>
        length (vectors m' Y_ref) = N \<and>
        (\<forall>i < N. vectors m' Y_ref ! i =
           rnd (a * vectors (initialize rnd N) X_ref ! i +
                  vectors (initialize rnd N) Y_original_ref ! i))"
    if ret: "main_with W rnd fp now N a T = Some (Inr (rep, m'))" for rep m'
  proof -
    have c: "1 \<le> total_iterations rep \<and> 1 \<le> count_list (accesses m') Call_sve_saxpy"
      using main_with_partial [OF assms ret] by (auto simp: final_report_def Let_def)
    have y: "vectors m' Y_ref =
       map2 (\<lambda>x y. rnd (a * x + y)) (vectors (initialize rnd N) X_ref)
         (vectors (initialize rnd N) Y_original_ref)"
      by (rule main_with_kernel_effect [OF assms ret])
    have len: "length (vectors m' Y_ref) = N" by (simp add: y initialize_lengths)
    have "vectors m' Y_ref ! i =
           rnd (a * vectors (initialize rnd N) X_ref ! i +
                  vectors (initialize rnd N) Y_original_ref ! i)" if "i < N" for i
      using that by (simp add: y initialize_lengths)
    then show ?thesis using c len by blast
  qed
  moreover have "\<exists>rep m'. main_with W rnd fp now N a T = Some (Inr (rep, m'))"
    if "42 < N \<and>
      (\<exists>j \<ge> 1. int j < LLONG_MAX \<and> T \<le> duration_cast_seconds (now j - now 0))"
    using that main_with_total [OF assms, of _ T now rnd fp a] by blast
  moreover have "\<exists>rep m'. main_with W rnd fp now N a T = Some (Inr (rep, m')) \<and>
           total_iterations rep = 1"
    if "42 < N \<and> T \<le> 0 \<and> now 0 \<le> now 1"
    using that main_with_zero_target [OF assms, of T now rnd fp a] by blast
  ultimately show ?thesis by blast
qed

theorem main_iterates_at_least_once_witness:
  "(16 :: 64 word) \<noteq> 0 \<and> (43 :: nat) \<le> max_size \<and> (42 :: nat) < 43 \<and>
   (0 :: int) \<le> 0 \<and> sample_clock 0 \<le> sample_clock 1 \<and>
   (\<exists>rep m'. main_with 16 (\<lambda>q. q) exact sample_clock 43 (5 / 2) 0 = Some (Inr (rep, m')) \<and>
      total_iterations rep = 1 \<and> 1 \<le> count_list (accesses m') Call_sve_saxpy \<and>
      length (vectors m' Y_ref) = 43 \<and>
      vectors m' Y_ref ! 0 = 43 \<and> vectors m' Y_ref ! 1 = 89 / 2 \<and>
      vectors m' Y_ref ! 42 = 106 \<and>
      vectors (initialize (\<lambda>q. q) 43) Y_ref ! 42 = 1)"
proof -
  have h1: "(16 :: 64 word) \<noteq> 0" by simp
  have h2: "(43 :: nat) \<le> max_size" by (simp add: max_size_def)
  have h3: "(42 :: nat) < 43" by simp
  have h4: "sample_clock 0 \<le> sample_clock 1" by (simp add: sample_clock_def)
  have rnd: "\<forall>q. binary32 q \<longrightarrow> (\<lambda>q. q) q = q" by simp
  have N: "(43 :: nat) \<le> 2 ^ 24" by simp
  have x: "vectors (initialize (\<lambda>q. q) 43) X_ref = map of_nat [0..<43]"
    and o: "vectors (initialize (\<lambda>q. q) 43) Y_original_ref = map (\<lambda>i. of_nat (43 - i)) [0..<43]"
    using initialize_ramps [OF rnd N] by simp_all
  have y0: "vectors (initialize (\<lambda>q. q) 43) Y_ref ! 42 = 1"
    using o by (simp add: initialize_vectors)
  note t = main_iterates_at_least_once [OF h1 h2, of "\<lambda>q. q" exact sample_clock "5 / 2" 0]
  obtain rep m' where ret: "main_with 16 (\<lambda>q. q) exact sample_clock 43 (5 / 2) 0 = Some (Inr (rep, m'))"
    and one: "total_iterations rep = 1"
    using t h3 h4 by auto
  have c: "1 \<le> count_list (accesses m') Call_sve_saxpy"
    and len: "length (vectors m' Y_ref) = 43"
    and vals: "\<forall>i < 43. vectors m' Y_ref ! i =
        5 / 2 * vectors (initialize (\<lambda>q. q) 43) X_ref ! i +
          vectors (initialize (\<lambda>q. q) 43) Y_original_ref ! i"
    using t ret by blast+
  have v0: "vectors m' Y_ref ! 0 = 43" using vals x o by simp
  have v1: "vectors m' Y_ref ! 1 = 89 / 2" using vals x o by simp
  have v42: "vectors m' Y_ref ! 42 = 106" using vals x o by simp
  show ?thesis using h1 h2 h3 h4 ret one c len v0 v1 v42 y0 by blast
qed

end
